theory Spec2Isabelle
  imports Complex_Main
begin

section \<open>Boards\<close>

text \<open>
  The game of \<^verbatim>\<open>src/api/index.tsx\<close> keeps its board in a JavaScript array typed
  \<^verbatim>\<open>(string | null)[]\<close>. A cell is \<^verbatim>\<open>null\<close> or a string; reading the array
  outside its bounds yields \<^verbatim>\<open>undefined\<close>, which is the \<open>None\<close> of \<open>cell_at\<close>.
\<close>

datatype cell = Null | Mark string

type_synonym board = "cell list"

definition cell_at :: "board \<Rightarrow> nat \<Rightarrow> cell option" where
  "cell_at b i = (if i < length b then Some (b ! i) else None)"

text \<open>
  JavaScript truthiness of a board read: \<^verbatim>\<open>undefined\<close>, \<^verbatim>\<open>null\<close> and the empty
  string are falsy, every other string is truthy.
\<close>

fun truthy :: "cell option \<Rightarrow> bool" where
  "truthy None = False"
| "truthy (Some Null) = False"
| "truthy (Some (Mark s)) = (s \<noteq> [])"

section \<open>Win detection\<close>

definition winPatterns :: "nat list list" where
  "winPatterns =
     [[0, 1, 2], [3, 4, 5], [6, 7, 8],
      [0, 3, 6], [1, 4, 7], [2, 5, 8],
      [0, 4, 8], [2, 4, 6]]"

text \<open>
  \<^verbatim>\<open>winPatterns.some(pattern => board[pattern[0]] && board[pattern[0]] === board[pattern[1]]
  && board[pattern[0]] === board[pattern[2]])\<close>. Strict equality on
  \<^verbatim>\<open>undefined\<close>, \<^verbatim>\<open>null\<close> and strings is equality of the values read.
\<close>

definition checkWin :: "board \<Rightarrow> bool" where
  "checkWin b =
     list_ex (\<lambda>pattern.
        truthy (cell_at b (pattern ! 0)) \<and>
        cell_at b (pattern ! 0) = cell_at b (pattern ! 1) \<and>
        cell_at b (pattern ! 0) = cell_at b (pattern ! 2)) winPatterns"

text \<open>
  The boards the game produces: nine cells, each \<^verbatim>\<open>null\<close>, \<^verbatim>\<open>'O'\<close> or \<^verbatim>\<open>'X'\<close>.
\<close>

definition valid_cell :: "cell \<Rightarrow> bool" where
  "valid_cell c = (c = Null \<or> c = Mark ''O'' \<or> c = Mark ''X'')"

definition valid_board :: "board \<Rightarrow> bool" where
  "valid_board b = (length b = 9 \<and> list_all valid_cell b)"

text \<open>
  The specification's wording of a win, independent of \<open>checkWin\<close>: one of the eight
  fixed triples holds three identical non-empty marks.
\<close>

definition triples :: "(nat \<times> nat \<times> nat) list" where
  "triples =
     [(0, 1, 2), (3, 4, 5), (6, 7, 8),
      (0, 3, 6), (1, 4, 7), (2, 5, 8),
      (0, 4, 8), (2, 4, 6)]"

definition three_in_a_row :: "board \<Rightarrow> bool" where
  "three_in_a_row b =
     list_ex (\<lambda>(i, j, k). b ! i \<noteq> Null \<and> b ! j = b ! i \<and> b ! k = b ! i) triples"

section \<open>The random source\<close>

text \<open>
  \<^verbatim>\<open>Math.random()\<close> is the only impurity of the policy. It is modelled as an explicit
  source of draws: the next draw is the head of the sequence, the rest is the source for
  later calls. A draw of the platform is a double in \<open>[0, 1)\<close>, here a real number.
  The thresholds are the doubles the literals denote. No double lies between \<open>1 / 5\<close> and
  the double of \<^verbatim>\<open>0.2\<close>, so on the draws of the platform the comparison with \<open>0.2\<close> is
  the one the code makes; the double of \<^verbatim>\<open>0.7\<close> is \<open>3152519739159347 / 2 ^ 52\<close>, below
  \<open>7 / 10\<close>, and is written out as that fraction.
\<close>

type_synonym rng = "nat \<Rightarrow> real"

definition Math_random :: "rng \<Rightarrow> real \<times> rng" where
  "Math_random g = (g 0, \<lambda>n. g (Suc n))"

text \<open>
  What an index expression evaluates to: \<^verbatim>\<open>undefined\<close>, \<^verbatim>\<open>NaN\<close> or an integer.
\<close>

datatype index = Undefined | NaN | Num int

section \<open>The opponent policy\<close>

text \<open>
  \<^verbatim>\<open>board.reduce((acc, cell, index) => { if (cell === null) acc.push(index); return acc }, [])\<close>:
  the indices of the empty cells, ascending.
\<close>

definition availableMoves :: "board \<Rightarrow> nat list" where
  "availableMoves b = filter (\<lambda>i. b ! i = Null) [0..<length b]"

text \<open>
  \<^verbatim>\<open>availableMoves[Math.floor(Math.random() * availableMoves.length)]\<close>: reading
  outside the array yields \<^verbatim>\<open>undefined\<close>. The product is taken over the real numbers.
  The code multiplies doubles, which is exact when the length is a power of two (the eight
  empty cells of the opening reply) and may otherwise round a product just below an integer
  up to it and so select the next cell; the selected index stays within the array either
  way.
\<close>

definition pick :: "nat list \<Rightarrow> real \<Rightarrow> index" where
  "pick moves r =
     (let k = \<lfloor>r * real (length moves)\<rfloor>
      in if 0 \<le> k \<and> nat k < length moves then Num (int (moves ! nat k)) else Undefined)"

definition randomMove :: "rng \<Rightarrow> board \<Rightarrow> index \<times> rng" where
  "randomMove g b = (let (r, g') = Math_random g in (pick (availableMoves b) r, g'))"

text \<open>
  The two search loops of \<open>getBestMove\<close> are the same code but for the mark they try:
  \<^verbatim>\<open>for (let i = 0; i < 9; i++) { if (board[i] === null) { board[i] = mark;
  if (checkWin(board)) { board[i] = null; return i } board[i] = null } }\<close>.
  The array is written in place, so the board is threaded through and returned.
\<close>

function find_move :: "string \<Rightarrow> nat \<Rightarrow> board \<Rightarrow> nat option \<times> board" where
  "find_move mark i b =
     (if i < 9 then
        (if cell_at b i = Some Null then
           (let b1 = b[i := Mark mark]
            in if checkWin b1 then (Some i, b1[i := Null])
               else find_move mark (Suc i) (b1[i := Null]))
         else find_move mark (Suc i) b)
      else (None, b))"
  by pat_completeness auto
termination
  by (relation "measure (\<lambda>(mark, i, b). 9 - i)") auto

declare find_move.simps [simp del]

text \<open>
  The return statement that produced a move. The source returns the number only; the label
  is a ghost value used to state which rule of the policy fired.
\<close>

datatype branch = ByMistake | ByOpening | ByWin | ByBlock | ByCenter | ByFallback

record choice =
  chosen :: index
  via :: branch
  board_after :: board
  rng_after :: rng

definition getBestMove :: "rng \<Rightarrow> board \<Rightarrow> string \<Rightarrow> choice" where
  "getBestMove g b player =
     (let opponent = (if player = ''X'' then ''O'' else ''X'');
          (r1, g1) = Math_random g
      in if r1 < 0.2 then
           (let (m, g2) = randomMove g1 b
            in \<lparr>chosen = m, via = ByMistake, board_after = b, rng_after = g2\<rparr>)
         else if length (filter (\<lambda>c. c \<noteq> Null) b) = 1 then
           (let (m, g2) = randomMove g1 b
            in \<lparr>chosen = m, via = ByOpening, board_after = b, rng_after = g2\<rparr>)
         else
           (case find_move player 0 b of
              (Some i, b1) \<Rightarrow>
                \<lparr>chosen = Num (int i), via = ByWin, board_after = b1, rng_after = g1\<rparr>
            | (None, b1) \<Rightarrow>
                (case find_move opponent 0 b1 of
                   (Some i, b2) \<Rightarrow>
                     \<lparr>chosen = Num (int i), via = ByBlock, board_after = b2, rng_after = g1\<rparr>
                 | (None, b2) \<Rightarrow>
                     (if cell_at b2 4 = Some Null then
                        (let (r2, g2) = Math_random g1
                         in if r2 < 3152519739159347 / 4503599627370496 then
                              \<lparr>chosen = Num 4, via = ByCenter, board_after = b2, rng_after = g2\<rparr>
                            else
                              (let (m, g3) = randomMove g2 b2
                               in \<lparr>chosen = m, via = ByFallback, board_after = b2,
                                    rng_after = g3\<rparr>))
                      else
                        (let (m, g2) = randomMove g1 b2
                         in \<lparr>chosen = m, via = ByFallback, board_after = b2,
                              rng_after = g2\<rparr>)))))"

text \<open>
  An empty cell where placing \<open>mark\<close> makes \<open>checkWin\<close> true: what each iteration of
  the search loops tests.
\<close>

definition winning_cell :: "board \<Rightarrow> string \<Rightarrow> nat \<Rightarrow> bool" where
  "winning_cell b mark i = (cell_at b i = Some Null \<and> checkWin (b[i := Mark mark]))"

section \<open>The move handler\<close>

definition COORDINATES :: "string list" where
  "COORDINATES = [''A1'', ''A2'', ''A3'', ''B1'', ''B2'', ''B3'', ''C1'', ''C2'', ''C3'']"

text \<open>
  \<^verbatim>\<open>${COORDINATES[move]}\<close> inside a template literal: a read outside the array prints
  as \<^verbatim>\<open>undefined\<close>.
\<close>

definition coordinate :: "index \<Rightarrow> string" where
  "coordinate v =
     (case v of
        Num k \<Rightarrow> if 0 \<le> k \<and> nat k < length COORDINATES then COORDINATES ! nat k
                 else ''undefined''
      | _ \<Rightarrow> ''undefined'')"

record GameState =
  board :: board
  currentPlayer :: string
  isGameOver :: bool
  difficulty :: string

text \<open>
  \<^verbatim>\<open>state.board[move]\<close> for the value \<^verbatim>\<open>parseInt\<close> produced: \<^verbatim>\<open>NaN\<close>, a negative
  number and an index past the end all read as \<^verbatim>\<open>undefined\<close>.
\<close>

definition board_at :: "board \<Rightarrow> index \<Rightarrow> cell option" where
  "board_at b v = (case v of Num k \<Rightarrow> if 0 \<le> k then cell_at b (nat k) else None | _ \<Rightarrow> None)"

text \<open>
  \<^verbatim>\<open>state.board[v] = c\<close>. An assignment under \<^verbatim>\<open>undefined\<close>, \<^verbatim>\<open>NaN\<close> or a negative
  number creates a named property of the array object, which no code reads and
  \<^verbatim>\<open>JSON.stringify\<close> omits: the cells are unchanged. The handler writes only at an index it
  has just read as \<^verbatim>\<open>null\<close> or at the value \<open>getBestMove\<close> returned, which is
  \<^verbatim>\<open>undefined\<close> or the index of an empty cell (lemma \<open>chosen_cases\<close>), so no write falls
  past the end of the array, where JavaScript would extend it.
\<close>

definition board_set :: "board \<Rightarrow> index \<Rightarrow> cell \<Rightarrow> board" where
  "board_set b v c =
     (case v of Num k \<Rightarrow> if 0 \<le> k \<and> nat k < length b then b[nat k := c] else b | _ \<Rightarrow> b)"

record reply =
  state :: GameState
  message :: string
  gameResult :: "string option"

text \<open>
  The body of the \<^verbatim>\<open>try\<close> block of \<^verbatim>\<open>app.frame('/game', ...)\<close> once the state is
  decoded and the move parsed (\<^verbatim>\<open>src/api/index.tsx\<close>, from
  \<^verbatim>\<open>if (state.board[move] === null && !state.isGameOver)\<close> to the final \<^verbatim>\<open>else\<close>).
  The fire-and-forget updates of the statistics store are not part of the model.
\<close>

definition processMove :: "rng \<Rightarrow> string \<Rightarrow> GameState \<Rightarrow> index \<Rightarrow> reply" where
  "processMove g username st mv =
     (if board_at (board st) mv = Some Null \<and> \<not> isGameOver st then
        (let b1 = board_set (board st) mv (Mark ''O'');
             msg = username @ '' moved at '' @ coordinate mv @ ''.''
         in if checkWin b1 then
              \<lparr>state = st\<lparr>board := b1, isGameOver := True\<rparr>,
               message = username @ '' wins! Game over.'',
               gameResult = Some ''win''\<rparr>
            else if list_all (\<lambda>c. c \<noteq> Null) b1 then
              \<lparr>state = st\<lparr>board := b1, isGameOver := True\<rparr>,
               message = ''Game over! It's a Tie.'',
               gameResult = Some ''draw''\<rparr>
            else
              (let computer = getBestMove g b1 ''X'';
                   computerMove = chosen computer;
                   b2 = board_set (board_after computer) computerMove (Mark ''X'');
                   msg2 = msg @ '' Computer moved at '' @ coordinate computerMove @ ''.''
               in if checkWin b2 then
                    \<lparr>state = st\<lparr>board := b2, isGameOver := True\<rparr>,
                     message = msg2 @ '' Computer wins! Game over.'',
                     gameResult = Some ''lose''\<rparr>
                  else if list_all (\<lambda>c. c \<noteq> Null) b2 then
                    \<lparr>state = st\<lparr>board := b2, isGameOver := True\<rparr>,
                     message = msg2 @ '' It's a draw. Game over.'',
                     gameResult = Some ''draw''\<rparr>
                  else
                    \<lparr>state = st\<lparr>board := b2\<rparr>,
                     message = msg2 @ '' Your turn, '' @ username @ ''.'',
                     gameResult = None\<rparr>))
      else if isGameOver st then
        \<lparr>state = st, message = ''Game is over. Start a new game!'', gameResult = None\<rparr>
      else
        \<lparr>state = st, message = ''That spot is already taken! Choose another.'',
         gameResult = None\<rparr>)"

text \<open>
  A lineage of states: each interaction sends back the state of the previous reply with
  the next move, and draws its own random numbers.
\<close>

fun lineage :: "string \<Rightarrow> GameState \<Rightarrow> (rng \<times> index) list \<Rightarrow> GameState" where
  "lineage username st [] = st"
| "lineage username st ((g, mv) # rest) =
     lineage username (state (processMove g username st mv)) rest"

section \<open>The platform's codec functions\<close>

text \<open>
  \<open>encodeState\<close> and \<open>decodeState\<close> are compositions of platform functions:
  \<^verbatim>\<open>JSON.stringify\<close>, \<^verbatim>\<open>JSON.parse\<close>, \<^verbatim>\<open>Buffer.from\<close> and \<^verbatim>\<open>Buffer.toString\<close>.
  They are modelled on the values the game exchanges. A JavaScript string is its list of
  \<^verbatim>\<open>UTF-8\<close> bytes, so \<^verbatim>\<open>Buffer.from(text)\<close> is the identity. Where the model does not
  follow the platform (number literals, \<^verbatim>\<open>\u\<close> escapes, bytes outside \<^verbatim>\<open>ASCII\<close>,
  object keys that are array indices) it answers \<open>Unmodelled\<close> rather than guess.
\<close>

datatype json = JNull | JBool bool | JStr string | JArr "json list" | JObj "(string \<times> json) list"

datatype js_error = SyntaxError | TypeError

datatype 'a outcome = Returns 'a | Throws js_error | Unmodelled

subsection \<open>Base64\<close>

definition b64char :: "nat \<Rightarrow> char" where
  "b64char n =
     ''ABCDEFGHIJKLMNOPQRSTUVWXYZabcdefghijklmnopqrstuvwxyz0123456789+/'' ! n"

text \<open>\<^verbatim>\<open>buffer.toString('base64')\<close>: the standard alphabet, padded with \<^verbatim>\<open>=\<close>.\<close>

fun b64encode :: "string \<Rightarrow> string" where
  "b64encode [] = []"
| "b64encode [a] =
     [b64char (of_char a div 4), b64char (of_char a mod 4 * 16), CHR ''='', CHR ''='']"
| "b64encode [a, b] =
     [b64char (of_char a div 4),
      b64char (of_char a mod 4 * 16 + of_char b div 16),
      b64char (of_char b mod 16 * 4), CHR ''='']"
| "b64encode (a # b # c # rest) =
     [b64char (of_char a div 4),
      b64char (of_char a mod 4 * 16 + of_char b div 16),
      b64char (of_char b mod 16 * 4 + of_char c div 64),
      b64char (of_char c mod 64)] @ b64encode rest"

text \<open>
  \<^verbatim>\<open>Buffer.from(token, 'base64')\<close> never fails: it accepts the standard and the
  URL-safe alphabet, skips any other character and stops at the first \<^verbatim>\<open>=\<close>. A last
  group of two or three characters gives one or two bytes, a single character none.
\<close>

definition unbase64 :: "char \<Rightarrow> nat option" where
  "unbase64 c =
     (let n = (of_char c :: nat)
      in if 65 \<le> n \<and> n \<le> 90 then Some (n - 65)
         else if 97 \<le> n \<and> n \<le> 122 then Some (n - 71)
         else if 48 \<le> n \<and> n \<le> 57 then Some (n + 4)
         else if c = CHR ''+'' \<or> c = CHR ''-'' then Some 62
         else if c = CHR ''/'' \<or> c = CHR ''_'' then Some 63
         else None)"

fun from_sextets :: "nat list \<Rightarrow> string" where
  "from_sextets (a # b # c # d # rest) =
     [char_of (a * 4 + b div 16), char_of (b mod 16 * 16 + c div 4), char_of (c mod 4 * 64 + d)]
     @ from_sextets rest"
| "from_sextets [a, b, c] = [char_of (a * 4 + b div 16), char_of (b mod 16 * 16 + c div 4)]"
| "from_sextets [a, b] = [char_of (a * 4 + b div 16)]"
| "from_sextets _ = []"

definition b64decode :: "string \<Rightarrow> string" where
  "b64decode token =
     from_sextets (List.map_filter unbase64 (takeWhile (\<lambda>c. c \<noteq> CHR ''='') token))"

text \<open>
  \<^verbatim>\<open>buffer.toString()\<close> decodes \<^verbatim>\<open>UTF-8\<close>; on \<^verbatim>\<open>ASCII\<close> bytes it is the identity.
\<close>

definition toString :: "string \<Rightarrow> string option" where
  "toString bytes = (if list_all (\<lambda>c. (of_char c :: nat) < 128) bytes then Some bytes else None)"

subsection \<open>JSON.stringify\<close>

definition hex_digit :: "nat \<Rightarrow> char" where
  "hex_digit n = ''0123456789abcdef'' ! n"

text \<open>
  The quoting of one character of a string: the quote and the backslash are escaped,
  control characters have a short escape or the form \<^verbatim>\<open>\u00xx\<close>.
\<close>

definition quote_char :: "char \<Rightarrow> string" where
  "quote_char c =
     (let n = (of_char c :: nat)
      in if c = CHR 0x22 then [CHR 0x5C, CHR 0x22]
         else if c = CHR 0x5C then [CHR 0x5C, CHR 0x5C]
         else if n = 8 then [CHR 0x5C, CHR ''b'']
         else if n = 12 then [CHR 0x5C, CHR ''f'']
         else if n = 10 then [CHR 0x5C, CHR ''n'']
         else if n = 13 then [CHR 0x5C, CHR ''r'']
         else if n = 9 then [CHR 0x5C, CHR ''t'']
         else if n < 32 then
           [CHR 0x5C, CHR ''u'', CHR ''0'', CHR ''0'', hex_digit (n div 16), hex_digit (n mod 16)]
         else [c])"

definition quote :: "string \<Rightarrow> string" where
  "quote s = [CHR 0x22] @ concat (map quote_char s) @ [CHR 0x22]"

fun join :: "string list \<Rightarrow> string" where
  "join [] = []"
| "join [x] = x"
| "join (x # y # rest) = x @ [CHR '',''] @ join (y # rest)"

fun stringify :: "json \<Rightarrow> string" where
  "stringify JNull = ''null''"
| "stringify (JBool b) = (if b then ''true'' else ''false'')"
| "stringify (JStr s) = quote s"
| "stringify (JArr vs) = ''['' @ join (map stringify vs) @ '']''"
| "stringify (JObj kvs) =
     ''{'' @ join (map (\<lambda>(k, v). quote k @ '':'' @ stringify v) kvs) @ ''}''"

subsection \<open>JSON.parse\<close>

text \<open>
  A recursive-descent parser of the \<^verbatim>\<open>JSON\<close> grammar. A parse yields a value and the
  rest of the text, a syntax error, or \<open>Unsupported\<close> at the first construct outside the
  model. The recursion is bounded by a fuel that \<open>JSON_parse\<close> sets beyond what a text of
  that length can use (lemma \<open>JSON_parse_fuel\<close>).
\<close>

datatype 'a parsed = Ok 'a string | SyntaxErr | Unsupported | OutOfFuel

definition bind_parsed :: "'a parsed \<Rightarrow> ('a \<Rightarrow> string \<Rightarrow> 'b parsed) \<Rightarrow> 'b parsed" where
  "bind_parsed p f =
     (case p of
        Ok v r \<Rightarrow> f v r
      | SyntaxErr \<Rightarrow> SyntaxErr
      | Unsupported \<Rightarrow> Unsupported
      | OutOfFuel \<Rightarrow> OutOfFuel)"

definition is_ws :: "char \<Rightarrow> bool" where
  "is_ws c = (c = CHR 0x20 \<or> c = CHR 0x09 \<or> c = CHR 0x0A \<or> c = CHR 0x0D)"

definition skip_ws :: "string \<Rightarrow> string" where
  "skip_ws s = dropWhile is_ws s"

definition is_digit :: "char \<Rightarrow> bool" where
  "is_digit c = (48 \<le> (of_char c :: nat) \<and> (of_char c :: nat) \<le> 57)"

definition unescape :: "char \<Rightarrow> char option" where
  "unescape e =
     (if e = CHR 0x22 then Some (CHR 0x22)
      else if e = CHR 0x5C then Some (CHR 0x5C)
      else if e = CHR ''/'' then Some (CHR ''/'')
      else if e = CHR ''b'' then Some (CHR 0x08)
      else if e = CHR ''f'' then Some (CHR 0x0C)
      else if e = CHR ''n'' then Some (CHR 0x0A)
      else if e = CHR ''r'' then Some (CHR 0x0D)
      else if e = CHR ''t'' then Some (CHR 0x09)
      else None)"

text \<open>The characters of a string literal, after its opening quote.\<close>

fun parse_chars :: "string \<Rightarrow> string parsed" where
  "parse_chars [] = SyntaxErr"
| "parse_chars [c] = (if c = CHR 0x22 then Ok [] [] else SyntaxErr)"
| "parse_chars (c # e # rest) =
     (if c = CHR 0x22 then Ok [] (e # rest)
      else if c = CHR 0x5C then
        (if e = CHR ''u'' then Unsupported
         else (case unescape e of
                 None \<Rightarrow> SyntaxErr
               | Some d \<Rightarrow> bind_parsed (parse_chars rest) (\<lambda>s r. Ok (d # s) r)))
      else if (of_char c :: nat) < 32 then SyntaxErr
      else bind_parsed (parse_chars (e # rest)) (\<lambda>s r. Ok (c # s) r))"

text \<open>
  \<^verbatim>\<open>JSON.parse\<close> defines the properties of an object in the order of the text; a repeated
  key keeps its first place and takes the last value.
\<close>

fun obj_set :: "(string \<times> json) list \<Rightarrow> string \<Rightarrow> json \<Rightarrow> (string \<times> json) list" where
  "obj_set [] k v = [(k, v)]"
| "obj_set ((k', v') # kvs) k v =
     (if k' = k then (k, v) # kvs else (k', v') # obj_set kvs k v)"

definition build_object :: "(string \<times> json) list \<Rightarrow> (string \<times> json) list" where
  "build_object members = foldl (\<lambda>acc (k, v). obj_set acc k v) [] members"

text \<open>
  A key made of digits may be an array index, which an object enumerates before its other
  keys: such objects are outside the model.
\<close>

definition index_key :: "string \<Rightarrow> bool" where
  "index_key k = (k \<noteq> [] \<and> list_all is_digit k)"

fun parse_value :: "nat \<Rightarrow> string \<Rightarrow> json parsed"
  and parse_elems :: "nat \<Rightarrow> string \<Rightarrow> json list parsed"
  and parse_members :: "nat \<Rightarrow> string \<Rightarrow> (string \<times> json) list parsed"
where
  "parse_value 0 s = OutOfFuel"
| "parse_value (Suc n) s =
     (case skip_ws s of
        [] \<Rightarrow> SyntaxErr
      | c # r \<Rightarrow>
          if c = CHR ''n'' then
            (if take 3 r = ''ull'' then Ok JNull (drop 3 r) else SyntaxErr)
          else if c = CHR ''t'' then
            (if take 3 r = ''rue'' then Ok (JBool True) (drop 3 r) else SyntaxErr)
          else if c = CHR ''f'' then
            (if take 4 r = ''alse'' then Ok (JBool False) (drop 4 r) else SyntaxErr)
          else if c = CHR 0x22 then
            bind_parsed (parse_chars r) (\<lambda>str r'. Ok (JStr str) r')
          else if c = CHR ''['' then
            (if take 1 (skip_ws r) = '']'' then Ok (JArr []) (drop 1 (skip_ws r))
             else bind_parsed (parse_elems n r) (\<lambda>vs r'. Ok (JArr vs) r'))
          else if c = CHR ''{'' then
            (if take 1 (skip_ws r) = ''}'' then Ok (JObj []) (drop 1 (skip_ws r))
             else bind_parsed (parse_members n r)
                    (\<lambda>members r'.
                       if list_ex (\<lambda>(k, v). index_key k) members then Unsupported
                       else Ok (JObj (build_object members)) r'))
          else if c = CHR ''-'' \<or> is_digit c then Unsupported
          else SyntaxErr)"
| "parse_elems 0 s = OutOfFuel"
| "parse_elems (Suc n) s =
     bind_parsed (parse_value n s)
       (\<lambda>v r.
          case skip_ws r of
            [] \<Rightarrow> SyntaxErr
          | c # r' \<Rightarrow>
              if c = CHR '','' then bind_parsed (parse_elems n r') (\<lambda>vs r''. Ok (v # vs) r'')
              else if c = CHR '']'' then Ok [v] r'
              else SyntaxErr)"
| "parse_members 0 s = OutOfFuel"
| "parse_members (Suc n) s =
     (case skip_ws s of
        [] \<Rightarrow> SyntaxErr
      | q # r \<Rightarrow>
          if q \<noteq> CHR 0x22 then SyntaxErr
          else
            bind_parsed (parse_chars r)
              (\<lambda>k r1.
                 case skip_ws r1 of
                   [] \<Rightarrow> SyntaxErr
                 | c # r2 \<Rightarrow>
                     if c \<noteq> CHR '':'' then SyntaxErr
                     else
                       bind_parsed (parse_value n r2)
                         (\<lambda>v r3.
                            case skip_ws r3 of
                              [] \<Rightarrow> SyntaxErr
                            | d # r4 \<Rightarrow>
                                if d = CHR '','' then
                                  bind_parsed (parse_members n r4)
                                    (\<lambda>kvs r5. Ok ((k, v) # kvs) r5)
                                else if d = CHR ''}'' then Ok [(k, v)] r4
                                else SyntaxErr)))"

declare parse_value.simps [simp del] parse_elems.simps [simp del] parse_members.simps [simp del]

definition JSON_parse :: "string \<Rightarrow> json outcome" where
  "JSON_parse text =
     (case parse_value (2 * length text + 2) text of
        Ok v r \<Rightarrow> if skip_ws r = [] then Returns v else Throws SyntaxError
      | SyntaxErr \<Rightarrow> Throws SyntaxError
      | Unsupported \<Rightarrow> Unmodelled
      | OutOfFuel \<Rightarrow> Unmodelled)"

section \<open>The state codec\<close>

text \<open>
  \<^verbatim>\<open>Buffer.from(JSON.stringify(state)).toString('base64')\<close>, on the object a state is at
  run time.
\<close>

definition encodeState :: "json \<Rightarrow> string" where
  "encodeState st = b64encode (stringify st)"

text \<open>JavaScript truthiness of a parsed value, \<^verbatim>\<open>undefined\<close> being \<open>None\<close>.\<close>

fun truthy_json :: "json option \<Rightarrow> bool" where
  "truthy_json None = False"
| "truthy_json (Some JNull) = False"
| "truthy_json (Some (JBool b)) = b"
| "truthy_json (Some (JStr s)) = (s \<noteq> [])"
| "truthy_json (Some (JArr vs)) = True"
| "truthy_json (Some (JObj kvs)) = True"

text \<open>
  \<^verbatim>\<open>{ ...decoded, difficulty: decoded.difficulty || 'medium' }\<close>. Reading a property of
  \<^verbatim>\<open>null\<close> throws a \<^verbatim>\<open>TypeError\<close>; a boolean has no own properties to spread; the
  characters of a string and the elements of an array spread under index keys, which is
  outside the model unless there are none.
\<close>

definition with_difficulty :: "json \<Rightarrow> json outcome" where
  "with_difficulty decoded =
     (case decoded of
        JNull \<Rightarrow> Throws TypeError
      | JBool b \<Rightarrow> Returns (JObj [(''difficulty'', JStr ''medium'')])
      | JStr s \<Rightarrow>
          if s = [] then Returns (JObj [(''difficulty'', JStr ''medium'')]) else Unmodelled
      | JArr vs \<Rightarrow>
          if vs = [] then Returns (JObj [(''difficulty'', JStr ''medium'')]) else Unmodelled
      | JObj kvs \<Rightarrow>
          Returns (JObj (obj_set kvs ''difficulty''
            (case map_of kvs ''difficulty'' of
               None \<Rightarrow> JStr ''medium''
             | Some d \<Rightarrow> if truthy_json (Some d) then d else JStr ''medium''))))"

definition decodeState :: "string \<Rightarrow> json outcome" where
  "decodeState encodedState =
     (case toString (b64decode encodedState) of
        None \<Rightarrow> Unmodelled
      | Some text \<Rightarrow>
          (case JSON_parse text of
             Returns decoded \<Rightarrow> with_difficulty decoded
           | Throws e \<Rightarrow> Throws e
           | Unmodelled \<Rightarrow> Unmodelled))"

text \<open>
  The first version of the codec (\<^verbatim>\<open>src/unnamed/part_000\<close>), whose states carry no
  difficulty: \<^verbatim>\<open>JSON.parse(Buffer.from(encodedState, 'base64').toString())\<close>.
\<close>

definition decodeState_v0 :: "string \<Rightarrow> json outcome" where
  "decodeState_v0 encodedState =
     (case toString (b64decode encodedState) of
        None \<Rightarrow> Unmodelled
      | Some text \<Rightarrow> JSON_parse text)"

text \<open>
  The run-time object of a typed state, its keys in the order of the object literal, and
  the typed view of a run-time object.
\<close>

definition cell_json :: "cell \<Rightarrow> json" where
  "cell_json c = (case c of Null \<Rightarrow> JNull | Mark s \<Rightarrow> JStr s)"

definition GameState_json :: "GameState \<Rightarrow> json" where
  "GameState_json st =
     JObj [(''board'', JArr (map cell_json (board st))),
           (''currentPlayer'', JStr (currentPlayer st)),
           (''isGameOver'', JBool (isGameOver st)),
           (''difficulty'', JStr (difficulty st))]"

definition GameState_v0_json :: "board \<Rightarrow> string \<Rightarrow> bool \<Rightarrow> json" where
  "GameState_v0_json b player over =
     JObj [(''board'', JArr (map cell_json b)),
           (''currentPlayer'', JStr player),
           (''isGameOver'', JBool over)]"

fun json_cell :: "json \<Rightarrow> cell option" where
  "json_cell JNull = Some Null"
| "json_cell (JStr s) = Some (Mark s)"
| "json_cell _ = None"

fun json_cells :: "json list \<Rightarrow> board option" where
  "json_cells [] = Some []"
| "json_cells (v # vs) =
     (case json_cell v of
        None \<Rightarrow> None
      | Some c \<Rightarrow> (case json_cells vs of None \<Rightarrow> None | Some cs \<Rightarrow> Some (c # cs)))"

definition as_GameState :: "json \<Rightarrow> GameState option" where
  "as_GameState obj =
     (case obj of
        JObj [(k1, JArr cells), (k2, JStr player), (k3, JBool over), (k4, JStr level)] \<Rightarrow>
          if k1 = ''board'' \<and> k2 = ''currentPlayer'' \<and> k3 = ''isGameOver''
             \<and> k4 = ''difficulty''
          then (case json_cells cells of
                  None \<Rightarrow> None
                | Some b \<Rightarrow>
                    Some \<lparr>board = b, currentPlayer = player, isGameOver = over,
                          difficulty = level\<rparr>)
          else None
      | _ \<Rightarrow> None)"

text \<open>The states the game produces.\<close>

definition valid_state :: "GameState \<Rightarrow> bool" where
  "valid_state st =
     (valid_board (board st)
      \<and> (currentPlayer st = ''O'' \<or> currentPlayer st = ''X'')
      \<and> (difficulty st = ''easy'' \<or> difficulty st = ''medium'' \<or> difficulty st = ''hard''))"

section \<open>The frame handler\<close>

text \<open>
  The state a new game starts from:
  \<^verbatim>\<open>{ board: Array(9).fill(null), currentPlayer: 'O', isGameOver: false, difficulty: 'easy' }\<close>.
\<close>

definition fresh_state :: GameState where
  "fresh_state =
     \<lparr>board = replicate 9 Null, currentPlayer = ''O'', isGameOver = False,
      difficulty = ''easy''\<rparr>"

text \<open>
  What a reply of the frame shows: the final state (drawn as the board), the message, the
  game result and the token of the state, which the move buttons send back.
\<close>

record response =
  final_state :: json
  shown_message :: string
  result :: "string option"
  encodedState :: string

text \<open>
  The code after the \<^verbatim>\<open>try\<close>/\<^verbatim>\<open>catch\<close>: \<^verbatim>\<open>const encodedState = encodeState(state)\<close>,
  then \<^verbatim>\<open>state.board.reduce(...)\<close>, which throws a \<^verbatim>\<open>TypeError\<close> unless
  \<^verbatim>\<open>state.board\<close> is an array. Nothing catches it there. The choice of the four move
  buttons and the drawing of the image are not part of the model.
\<close>

definition finish :: "json \<Rightarrow> string \<Rightarrow> string option \<Rightarrow> response outcome" where
  "finish st msg res =
     (case st of
        JObj kvs \<Rightarrow>
          (case map_of kvs ''board'' of
             Some (JArr cells) \<Rightarrow>
               Returns \<lparr>final_state = st, shown_message = msg, result = res,
                        encodedState = encodeState st\<rparr>
           | _ \<Rightarrow> Throws TypeError)
      | _ \<Rightarrow> Throws TypeError)"

text \<open>
  \<^verbatim>\<open>app.frame('/game', ...)\<close> of \<^verbatim>\<open>src/api/index.tsx\<close>. The request is \<open>None\<close> unless
  the button value starts with \<^verbatim>\<open>move:\<close>; otherwise it carries the two parts
  \<^verbatim>\<open>buttonValue.split(':')\<close> yields after the marker: the token and the value
  \<^verbatim>\<open>parseInt\<close> makes of the move index.

  Inside the \<^verbatim>\<open>try\<close> block the state variable is assigned as soon as \<open>decodeState\<close>
  returns. If \<open>decodeState\<close> throws, the variable still holds the fresh state. If the
  decoded object has no board (\<^verbatim>\<open>undefined\<close> or \<^verbatim>\<open>null\<close>), \<^verbatim>\<open>state.board[move]\<close>
  throws a \<^verbatim>\<open>TypeError\<close>, which is caught, and the variable holds the decoded object.
  A decoded object that has a board but not the shape of a \<open>GameState\<close> is outside the
  model.
\<close>

definition game_frame :: "rng \<Rightarrow> string \<Rightarrow> (string \<times> index) option \<Rightarrow> response outcome" where
  "game_frame g username request =
     (case request of
        None \<Rightarrow>
          finish (GameState_json fresh_state) (''New game started! Your turn, '' @ username) None
      | Some (token, mv) \<Rightarrow>
          (case decodeState token of
             Throws e \<Rightarrow>
               finish (GameState_json fresh_state)
                 ''An error occurred while processing your move. Please try again.'' None
           | Unmodelled \<Rightarrow> Unmodelled
           | Returns obj \<Rightarrow>
               (case as_GameState obj of
                  Some st \<Rightarrow>
                    (let r = processMove g username st mv
                     in finish (GameState_json (state r)) (message r) (gameResult r))
                | None \<Rightarrow>
                    (case obj of
                       JObj kvs \<Rightarrow>
                         (case map_of kvs ''board'' of
                            None \<Rightarrow>
                              finish obj
                                ''An error occurred while processing your move. Please try again.''
                                None
                          | Some JNull \<Rightarrow>
                              finish obj
                                ''An error occurred while processing your move. Please try again.''
                                None
                          | Some _ \<Rightarrow> Unmodelled)
                     | _ \<Rightarrow> Unmodelled))))"

text \<open>
  A lineage of tokens: each interaction sends the token of the previous reply with the
  next move. \<open>None\<close> when an interaction does not reply.
\<close>

fun token_lineage :: "string \<Rightarrow> string \<Rightarrow> (rng \<times> index) list \<Rightarrow> string option" where
  "token_lineage username token [] = Some token"
| "token_lineage username token ((g, mv) # rest) =
     (case game_frame g username (Some (token, mv)) of
        Returns r \<Rightarrow> token_lineage username (encodedState r) rest
      | _ \<Rightarrow> None)"

section \<open>Auxiliary notions\<close>

text \<open>The sextets a token decodes to, the text of a board and the strings of \<^verbatim>\<open>ASCII\<close>.\<close>

definition decode_chars :: "string \<Rightarrow> nat list" where
  "decode_chars token = List.map_filter unbase64 (takeWhile (\<lambda>c. c \<noteq> CHR ''='') token)"

definition cells_text :: "board \<Rightarrow> string" where
  "cells_text b = join (map stringify (map cell_json b))"

definition ascii :: "string \<Rightarrow> bool" where
  "ascii s = list_all (\<lambda>c. (of_char c :: nat) < 128) s"

section \<open>Properties of win detection\<close>

lemma checkWin_unfold:
  "checkWin b =
     (let w = (\<lambda>i j k. truthy (cell_at b i) \<and> cell_at b i = cell_at b j \<and> cell_at b i = cell_at b k)
      in w 0 1 2 \<or> w 3 4 5 \<or> w 6 7 8 \<or> w 0 3 6 \<or> w 1 4 7 \<or> w 2 5 8 \<or> w 0 4 8 \<or> w 2 4 6)"
  by (simp add: checkWin_def winPatterns_def Let_def)

lemma valid_board_nth:
  assumes "valid_board b" and "i < 9"
  shows "valid_cell (b ! i)"
  using assms by (simp add: valid_board_def list_all_length)

lemma truthy_valid_cell:
  "valid_cell c \<Longrightarrow> truthy (Some c) = (c \<noteq> Null)"
  by (auto simp: valid_cell_def)

lemma line_valid:
  assumes "valid_board b" and "i < 9" and "j < 9" and "k < 9"
  shows "(truthy (cell_at b i) \<and> cell_at b i = cell_at b j \<and> cell_at b i = cell_at b k)
         = (b ! i \<noteq> Null \<and> b ! j = b ! i \<and> b ! k = b ! i)"
proof -
  have len: "length b = 9" using assms(1) by (simp add: valid_board_def)
  have "truthy (Some (b ! i)) = (b ! i \<noteq> Null)"
    using valid_board_nth [OF assms(1,2)] by (rule truthy_valid_cell)
  then show ?thesis
    using assms(2-4) len by (auto simp: cell_at_def)
qed

text \<open>
  C2. On every board of nine cells holding \<^verbatim>\<open>null\<close>, \<^verbatim>\<open>'O'\<close> or \<^verbatim>\<open>'X'\<close>,
  \<open>checkWin\<close> is true exactly when one of the eight fixed triples holds three identical
  non-empty marks; three empty cells in a line are never a win.
\<close>

theorem checkWin_iff_three_in_a_row:
  assumes "valid_board b"
  shows "checkWin b = three_in_a_row b"
  unfolding checkWin_unfold three_in_a_row_def triples_def Let_def
  by (simp add: line_valid [OF assms])

theorem checkWin_iff_three_in_a_row_witness:
  "valid_board [Mark ''O'', Mark ''O'', Mark ''O'', Mark ''X'', Mark ''X'', Null, Null, Null, Null]
   \<and> checkWin [Mark ''O'', Mark ''O'', Mark ''O'', Mark ''X'', Mark ''X'', Null, Null, Null, Null]
   \<and> valid_board (replicate 9 Null)
   \<and> \<not> checkWin (replicate 9 Null)"
proof -
  let ?b = "[Mark ''O'', Mark ''O'', Mark ''O'', Mark ''X'', Mark ''X'', Null, Null, Null, Null]"
  have v1: "valid_board ?b"
    by (simp add: valid_board_def valid_cell_def)
  have v2: "valid_board (replicate 9 Null)"
    by (simp add: valid_board_def valid_cell_def list_all_length)
  have t1: "three_in_a_row ?b"
    by (simp add: three_in_a_row_def triples_def)
  have t2: "\<not> three_in_a_row (replicate 9 Null)"
    by (simp add: three_in_a_row_def triples_def)
  show ?thesis
    using v1 v2 t1 t2 checkWin_iff_three_in_a_row [OF v1] checkWin_iff_three_in_a_row [OF v2]
    by simp
qed

section \<open>Properties of the search loops\<close>

lemma restore_cell:
  assumes "cell_at b i = Some Null"
  shows "b[i := Null] = b"
proof -
  from assms have "i < length b" and "b ! i = Null"
    by (auto simp: cell_at_def split: if_splits)
  then show ?thesis by (metis list_update_id)
qed

text \<open>
  A loop iteration restores the cell it tried, so one iteration either returns the index
  with the board as it was or goes on with the board as it was.
\<close>

lemma find_move_step:
  "find_move mark i b =
     (if i < 9 then
        (if winning_cell b mark i then (Some i, b) else find_move mark (Suc i) b)
      else (None, b))"
proof (cases "cell_at b i = Some Null")
  case True
  then show ?thesis
    by (subst find_move.simps) (simp add: winning_cell_def restore_cell Let_def)
next
  case False
  then show ?thesis
    by (subst find_move.simps) (simp add: winning_cell_def)
qed

lemma find_move_first:
  assumes "i \<le> k" and "k < 9" and "winning_cell b mark k"
    and "\<forall>j. i \<le> j \<and> j < k \<longrightarrow> \<not> winning_cell b mark j"
  shows "find_move mark i b = (Some k, b)"
  using assms
proof (induction "k - i" arbitrary: i)
  case 0
  then have "i = k" by simp
  with 0 show ?case by (subst find_move_step) simp
next
  case (Suc n)
  then have lt: "i < k" by simp
  with Suc.prems have nw: "\<not> winning_cell b mark i" by simp
  have "find_move mark (Suc i) b = (Some k, b)"
    using Suc.hyps(1) [of "Suc i"] Suc.hyps(2) Suc.prems lt by auto
  with nw lt Suc.prems(2) show ?case by (subst find_move_step) simp
qed

lemma find_move_none:
  assumes "\<forall>j. i \<le> j \<and> j < 9 \<longrightarrow> \<not> winning_cell b mark j"
  shows "find_move mark i b = (None, b)"
  using assms
proof (induction "9 - i" arbitrary: i)
  case 0
  then show ?case by (subst find_move_step) simp
next
  case (Suc n)
  then have lt: "i < 9" by simp
  with Suc.prems have nw: "\<not> winning_cell b mark i" by simp
  have "find_move mark (Suc i) b = (None, b)"
    using Suc.hyps(1) [of "Suc i"] Suc.hyps(2) Suc.prems by auto
  with nw lt show ?case by (subst find_move_step) simp
qed

lemma find_move_board: "snd (find_move mark i b) = b"
proof (induction "9 - i" arbitrary: i)
  case 0
  then show ?case by (subst find_move_step) simp
next
  case (Suc n)
  then have "snd (find_move mark (Suc i) b) = b" by simp
  then show ?case by (subst find_move_step) simp
qed

lemma find_move_snd: "find_move mark i b = (fst (find_move mark i b), b)"
  by (metis find_move_board prod.collapse)

lemma case_find_move:
  "(case find_move mark i b of (w, b') \<Rightarrow> f w b') = f (fst (find_move mark i b)) b"
  by (subst find_move_snd) simp

lemma find_move_fst_Some_iff:
  "(\<exists>k. fst (find_move mark 0 b) = Some k) = (\<exists>j<9. winning_cell b mark j)"
proof
  assume "\<exists>j<9. winning_cell b mark j"
  then obtain j where j: "j < 9" "winning_cell b mark j" by blast
  define k where "k = (LEAST j. j < 9 \<and> winning_cell b mark j)"
  have k: "k < 9 \<and> winning_cell b mark k"
    unfolding k_def using j by (intro LeastI [of "\<lambda>j. j < 9 \<and> winning_cell b mark j" j]) simp
  have "\<forall>j. 0 \<le> j \<and> j < k \<longrightarrow> \<not> winning_cell b mark j"
  proof (intro allI impI)
    fix j assume "0 \<le> j \<and> j < k"
    then have "j < k" by simp
    from not_less_Least [OF this [unfolded k_def]] k \<open>j < k\<close>
    show "\<not> winning_cell b mark j" by auto
  qed
  then have "find_move mark 0 b = (Some k, b)"
    using k by (intro find_move_first) auto
  then show "\<exists>k. fst (find_move mark 0 b) = Some k" by simp
next
  assume "\<exists>k. fst (find_move mark 0 b) = Some k"
  show "\<exists>j<9. winning_cell b mark j"
  proof (rule ccontr)
    assume "\<not> (\<exists>j<9. winning_cell b mark j)"
    then have "find_move mark 0 b = (None, b)"
      by (intro find_move_none) auto
    with \<open>\<exists>k. fst (find_move mark 0 b) = Some k\<close> show False by simp
  qed
qed

lemma winning_cell_lt: "winning_cell b mark i \<Longrightarrow> i < length b"
  by (simp add: winning_cell_def cell_at_def split: if_splits)

lemma all_less_9:
  "(\<forall>j<9. P (j::nat)) = (P 0 \<and> P 1 \<and> P 2 \<and> P 3 \<and> P 4 \<and> P 5 \<and> P 6 \<and> P 7 \<and> P 8)"
  by (simp add: eval_nat_numeral All_less_Suc conj_ac)

section \<open>Properties of the policy\<close>

lemma board_after_getBestMove: "board_after (getBestMove g b player) = b"
  unfolding getBestMove_def Let_def
  by (simp add: case_find_move Math_random_def randomMove_def split: option.splits)

text \<open>
  C5. When the first draw does not trigger the mistake branch, the board does not hold
  exactly one mark, and some empty cell wins for the player, \<open>getBestMove\<close> returns the
  smallest such cell, through the win search.
\<close>

theorem getBestMove_takes_first_win:
  assumes "\<not> g 0 < 0.2"
    and "length (filter (\<lambda>c. c \<noteq> Null) b) \<noteq> 1"
    and "length b = 9"
    and "winning_cell b player i"
    and "\<forall>j<i. \<not> winning_cell b player j"
  shows "chosen (getBestMove g b player) = Num (int i) \<and> via (getBestMove g b player) = ByWin"
proof -
  have "i < 9" using winning_cell_lt [OF assms(4)] assms(3) by simp
  then have "find_move player 0 b = (Some i, b)"
    using assms(4,5) by (intro find_move_first) auto
  then show ?thesis
    using assms(1,2) by (simp add: getBestMove_def Math_random_def Let_def)
qed

theorem getBestMove_takes_first_win_witness:
  "\<not> (1 / 2 :: real) < 0.2
   \<and> length (filter (\<lambda>c. c \<noteq> Null)
        [Mark ''X'', Mark ''X'', Null, Mark ''O'', Mark ''O'', Null, Null, Null, Null]) \<noteq> 1
   \<and> winning_cell [Mark ''X'', Mark ''X'', Null, Mark ''O'', Mark ''O'', Null, Null, Null, Null] ''X'' 2
   \<and> chosen (getBestMove (\<lambda>_. 1 / 2)
        [Mark ''X'', Mark ''X'', Null, Mark ''O'', Mark ''O'', Null, Null, Null, Null] ''X'') = Num 2
   \<and> via (getBestMove (\<lambda>_. 1 / 2)
        [Mark ''X'', Mark ''X'', Null, Mark ''O'', Mark ''O'', Null, Null, Null, Null] ''X'') = ByWin"
proof -
  let ?b = "[Mark ''X'', Mark ''X'', Null, Mark ''O'', Mark ''O'', Null, Null, Null, Null]"
  have h1: "\<not> (\<lambda>_::nat. 1 / 2 :: real) 0 < 0.2" by simp
  have h2: "length (filter (\<lambda>c. c \<noteq> Null) ?b) \<noteq> 1" by simp
  have h3: "length ?b = 9" by simp
  have h4: "winning_cell ?b ''X'' 2"
    by (simp add: winning_cell_def cell_at_def checkWin_unfold)
  have h5: "\<forall>j<2. \<not> winning_cell ?b ''X'' j"
    by (simp add: eval_nat_numeral All_less_Suc winning_cell_def cell_at_def)
  show ?thesis
    using getBestMove_takes_first_win [OF h1 h2 h3 h4 h5] h2 h4 by simp
qed

text \<open>
  C6. When the first draw does not trigger the mistake branch, the board does not hold
  exactly one mark, no empty cell wins for the player and some empty cell wins for the
  opposing mark, \<open>getBestMove\<close> returns the smallest such cell, through the block search.
\<close>

theorem getBestMove_blocks_first_threat:
  assumes "\<not> g 0 < 0.2"
    and "length (filter (\<lambda>c. c \<noteq> Null) b) \<noteq> 1"
    and "length b = 9"
    and "\<forall>j<9. \<not> winning_cell b player j"
    and "opponent = (if player = ''X'' then ''O'' else ''X'')"
    and "winning_cell b opponent i"
    and "\<forall>j<i. \<not> winning_cell b opponent j"
  shows "chosen (getBestMove g b player) = Num (int i) \<and> via (getBestMove g b player) = ByBlock"
proof -
  have "i < 9" using winning_cell_lt [OF assms(6)] assms(3) by simp
  then have blk: "find_move opponent 0 b = (Some i, b)"
    using assms(6,7) by (intro find_move_first) auto
  have nowin: "find_move player 0 b = (None, b)"
    using assms(4) by (intro find_move_none) auto
  show ?thesis
    using assms(1,2) blk nowin unfolding assms(5)
    by (simp add: getBestMove_def Math_random_def Let_def)
qed

theorem getBestMove_blocks_first_threat_witness:
  "\<not> (1 / 2 :: real) < 0.2
   \<and> length (filter (\<lambda>c. c \<noteq> Null)
        [Mark ''O'', Mark ''O'', Null, Mark ''X'', Null, Null, Null, Null, Null]) \<noteq> 1
   \<and> \<not> (\<exists>j<9. winning_cell
          [Mark ''O'', Mark ''O'', Null, Mark ''X'', Null, Null, Null, Null, Null] ''X'' j)
   \<and> winning_cell [Mark ''O'', Mark ''O'', Null, Mark ''X'', Null, Null, Null, Null, Null] ''O'' 2
   \<and> chosen (getBestMove (\<lambda>_. 1 / 2)
        [Mark ''O'', Mark ''O'', Null, Mark ''X'', Null, Null, Null, Null, Null] ''X'') = Num 2
   \<and> via (getBestMove (\<lambda>_. 1 / 2)
        [Mark ''O'', Mark ''O'', Null, Mark ''X'', Null, Null, Null, Null, Null] ''X'') = ByBlock"
proof -
  let ?b = "[Mark ''O'', Mark ''O'', Null, Mark ''X'', Null, Null, Null, Null, Null]"
  have h1: "\<not> (\<lambda>_::nat. 1 / 2 :: real) 0 < 0.2" by simp
  have h2: "length (filter (\<lambda>c. c \<noteq> Null) ?b) \<noteq> 1" by simp
  have h3: "length ?b = 9" by simp
  have h4: "\<forall>j<9. \<not> winning_cell ?b ''X'' j"
    unfolding all_less_9 by (simp add: winning_cell_def cell_at_def checkWin_unfold)
  have h5: "''O'' = (if ''X'' = ''X'' then ''O'' else ''X'')" by simp
  have h6: "winning_cell ?b ''O'' 2"
    by (simp add: winning_cell_def cell_at_def checkWin_unfold)
  have h7: "\<forall>j<2. \<not> winning_cell ?b ''O'' j"
    by (simp add: eval_nat_numeral All_less_Suc winning_cell_def cell_at_def)
  show ?thesis
    using getBestMove_blocks_first_threat [OF h1 h2 h3 h4 h5 h6 h7] h2 h4 h6 by simp
qed

lemma pick_Nil: "pick [] r = Undefined"
  by (simp add: pick_def)

lemma availableMoves_full:
  "list_all (\<lambda>c. c \<noteq> Null) b \<Longrightarrow> availableMoves b = []"
  by (simp add: availableMoves_def list_all_length filter_empty_conv)

lemma set_availableMoves:
  "set (availableMoves b) = {i. cell_at b i = Some Null}"
  by (auto simp: availableMoves_def cell_at_def)

lemma pick_cases:
  "pick moves r = Undefined \<or> (\<exists>k\<in>set moves. pick moves r = Num (int k))"
  by (auto simp: pick_def Let_def)

lemma pick_defined:
  assumes "0 \<le> r" and "r < 1" and "moves \<noteq> []"
  shows "\<exists>k\<in>set moves. pick moves r = Num (int k)"
proof -
  let ?n = "length moves"
  have n: "0 < ?n" using assms(3) by simp
  have "0 \<le> r * real ?n" using assms(1) by simp
  then have k0: "0 \<le> \<lfloor>r * real ?n\<rfloor>" by simp
  have "r * real ?n < real ?n" using assms(2) n by simp
  then have "\<lfloor>r * real ?n\<rfloor> < int ?n" by (simp add: floor_less_iff)
  then have "nat \<lfloor>r * real ?n\<rfloor> < ?n" using k0 by linarith
  then show ?thesis using k0 by (auto simp: pick_def Let_def)
qed

lemma full_no_winning_cell:
  "list_all (\<lambda>c. c \<noteq> Null) b \<Longrightarrow> \<not> winning_cell b mark j"
  by (auto simp: winning_cell_def cell_at_def list_all_length)

lemma getBestMove_full:
  assumes "list_all (\<lambda>c. c \<noteq> Null) b"
  shows "chosen (getBestMove g b player) = Undefined"
proof -
  have fm: "find_move mark 0 b = (None, b)" for mark
    using full_no_winning_cell [OF assms] by (intro find_move_none) simp
  have c4: "cell_at b 4 \<noteq> Some Null"
    using assms by (auto simp: cell_at_def list_all_length)
  show ?thesis
    unfolding getBestMove_def Let_def
    by (simp add: fm c4 Math_random_def randomMove_def availableMoves_full [OF assms] pick_Nil)
qed

lemma via_opening_iff:
  "(via (getBestMove g b player) = ByOpening)
     = (\<not> g 0 < 0.2 \<and> length (filter (\<lambda>c. c \<noteq> Null) b) = 1)"
  unfolding getBestMove_def Let_def
  by (simp add: case_find_move Math_random_def randomMove_def split: option.splits)

lemma chosen_opening:
  "via (getBestMove g b player) = ByOpening \<Longrightarrow>
     chosen (getBestMove g b player) = pick (availableMoves b) (g 1)"
  unfolding getBestMove_def Let_def
  by (simp add: case_find_move Math_random_def randomMove_def split: option.splits if_splits)

lemma via_win_iff:
  assumes "\<not> g 0 < 0.2" and "length (filter (\<lambda>c. c \<noteq> Null) b) \<noteq> 1"
  shows "(via (getBestMove g b player) = ByWin) = (\<exists>j<9. winning_cell b player j)"
  unfolding find_move_fst_Some_iff [symmetric] getBestMove_def Let_def
  using assms
  by (simp add: case_find_move Math_random_def randomMove_def split: option.splits)

lemma via_block_iff:
  assumes "\<not> g 0 < 0.2" and "length (filter (\<lambda>c. c \<noteq> Null) b) \<noteq> 1"
  shows "(via (getBestMove g b player) = ByBlock)
     = ((\<forall>j<9. \<not> winning_cell b player j)
        \<and> (\<exists>j<9. winning_cell b (if player = ''X'' then ''O'' else ''X'') j))"
proof -
  have a: "(\<forall>j<9. \<not> winning_cell b player j) = (fst (find_move player 0 b) = None)"
    using find_move_fst_Some_iff [of player b] by auto
  show ?thesis
    unfolding a find_move_fst_Some_iff [symmetric] getBestMove_def Let_def
    using assms
    by (simp add: case_find_move Math_random_def randomMove_def split: option.splits)
qed

lemma length_availableMoves:
  "length (availableMoves b) = length (filter (\<lambda>c. c = Null) b)"
proof -
  have "filter (\<lambda>c. c = Null) b = filter (\<lambda>c. c = Null) (map ((!) b) [0..<length b])"
    by (simp add: map_nth)
  also have "\<dots> = map ((!) b) (filter (\<lambda>i. b ! i = Null) [0..<length b])"
    by (simp add: filter_map comp_def)
  finally show ?thesis by (simp add: availableMoves_def)
qed

lemma length_availableMoves_marks:
  "length (availableMoves b) + length (filter (\<lambda>c. c \<noteq> Null) b) = length b"
  using sum_length_filter_compl [of "\<lambda>c. c = Null" b]
  by (simp add: length_availableMoves)

lemma distinct_availableMoves: "distinct (availableMoves b)"
  by (simp add: availableMoves_def)

lemma availableMoves_nth_empty:
  assumes "k < length (availableMoves b)"
  shows "cell_at b (availableMoves b ! k) = Some Null"
  using nth_mem [OF assms] by (simp add: set_availableMoves)

lemma pick_nth_iff:
  assumes "0 \<le> r" and "r < 1" and "k < length moves" and "distinct moves"
  shows "(pick moves r = Num (int (moves ! k)))
         = (real k \<le> r * real (length moves) \<and> r * real (length moves) < real k + 1)"
proof -
  let ?n = "length moves"
  let ?f = "\<lfloor>r * real ?n\<rfloor>"
  have n: "0 < ?n" using assms(3) by (cases moves) simp_all
  have "0 \<le> r * real ?n" using assms(1) by simp
  then have f0: "0 \<le> ?f" by simp
  have "r * real ?n < real ?n" using assms(2) n by simp
  then have "?f < int ?n" by (simp add: floor_less_iff)
  then have fn: "nat ?f < ?n" using f0 by linarith
  have "pick moves r = Num (int (moves ! nat ?f))"
    using f0 fn by (simp add: pick_def Let_def)
  then have "(pick moves r = Num (int (moves ! k))) = (moves ! nat ?f = moves ! k)"
    by simp
  also have "\<dots> = (nat ?f = k)"
    using nth_eq_iff_index_eq [OF assms(4) fn assms(3)] .
  also have "\<dots> = (?f = int k)" using f0 by linarith
  also have "\<dots> = (real k \<le> r * real ?n \<and> r * real ?n < real k + 1)"
    by (simp add: floor_eq_iff)
  finally show ?thesis .
qed

lemma opening_cell:
  assumes "length b = 9" and "\<not> g 0 < 0.2" and "length (filter (\<lambda>c. c \<noteq> Null) b) = 1"
    and "0 \<le> g 1" and "g 1 < 1"
  shows "length (availableMoves b) = 8"
    and "k < 8 \<Longrightarrow> cell_at b (availableMoves b ! k) = Some Null"
    and "k < 8 \<Longrightarrow> (chosen (getBestMove g b player) = Num (int (availableMoves b ! k)))
           = (real k \<le> g 1 * 8 \<and> g 1 * 8 < real k + 1)"
proof -
  show len: "length (availableMoves b) = 8"
    using length_availableMoves_marks [of b] assms(1,3) by simp
  show "cell_at b (availableMoves b ! k) = Some Null" if "k < 8"
    using that len by (intro availableMoves_nth_empty) simp
  have c: "chosen (getBestMove g b player) = pick (availableMoves b) (g 1)"
    using assms(2,3) via_opening_iff [of g b player] by (intro chosen_opening) simp
  show "(chosen (getBestMove g b player) = Num (int (availableMoves b ! k)))
           = (real k \<le> g 1 * 8 \<and> g 1 * 8 < real k + 1)" if "k < 8"
    unfolding c
    using pick_nth_iff [OF assms(4,5) _ distinct_availableMoves, of k b] that len by simp
qed

text \<open>
  C7. The opening branch is taken exactly when the first draw does not trigger the mistake
  branch and the board holds exactly one mark; it then returns the empty cell selected by
  the next draw. On a board of nine cells that is one of the eight empty cells, each as
  likely as the others: the cell of rank \<open>k\<close> among the empty cells, in ascending order, is
  returned exactly when the draw lies in the interval from \<open>k / 8\<close> to \<open>(k + 1) / 8\<close>.
  With any other number of marks (and no mistake) the win search and then the block search
  decide: the win search answers exactly when some empty cell wins for the player, the
  block search exactly when none does and some empty cell wins for the opposing mark.
\<close>

theorem opening_branch_scope:
  "((via (getBestMove g b player) = ByOpening)
      = (\<not> g 0 < 0.2 \<and> length (filter (\<lambda>c. c \<noteq> Null) b) = 1))
   \<and> (via (getBestMove g b player) = ByOpening \<longrightarrow>
        chosen (getBestMove g b player) = pick (availableMoves b) (g 1))
   \<and> (\<not> g 0 < 0.2 \<and> length (filter (\<lambda>c. c \<noteq> Null) b) \<noteq> 1 \<longrightarrow>
        ((via (getBestMove g b player) = ByWin) = (\<exists>j<9. winning_cell b player j))
        \<and> ((via (getBestMove g b player) = ByBlock)
             = ((\<forall>j<9. \<not> winning_cell b player j)
                \<and> (\<exists>j<9. winning_cell b (if player = ''X'' then ''O'' else ''X'') j))))
   \<and> (length b = 9 \<and> \<not> g 0 < 0.2 \<and> length (filter (\<lambda>c. c \<noteq> Null) b) = 1
        \<and> 0 \<le> g 1 \<and> g 1 < 1 \<longrightarrow>
        length (availableMoves b) = 8
        \<and> (\<forall>k<8. cell_at b (availableMoves b ! k) = Some Null
              \<and> ((chosen (getBestMove g b player) = Num (int (availableMoves b ! k)))
                   = (real k \<le> g 1 * 8 \<and> g 1 * 8 < real k + 1))))"
  using via_opening_iff [of g b player] chosen_opening [of g b player]
    via_win_iff [of g b player] via_block_iff [of g b player]
    opening_cell(1) [of b g] opening_cell(2) [of b g] opening_cell(3) [of b g _ player]
  by blast

theorem opening_branch_scope_witness:
  "via (getBestMove (\<lambda>_. 1 / 2)
          [Null, Null, Null, Null, Mark ''O'', Null, Null, Null, Null] ''X'') = ByOpening
   \<and> availableMoves [Null, Null, Null, Null, Mark ''O'', Null, Null, Null, Null] ! 4 = 5
   \<and> chosen (getBestMove (\<lambda>_. 1 / 2)
          [Null, Null, Null, Null, Mark ''O'', Null, Null, Null, Null] ''X'') = Num 5
   \<and> chosen (getBestMove (\<lambda>_. 1 / 2)
          [Null, Null, Null, Null, Mark ''O'', Null, Null, Null, Null] ''X'') \<noteq> Num 3
   \<and> via (getBestMove (\<lambda>_. 1 / 2)
          [Mark ''X'', Null, Null, Null, Mark ''O'', Null, Null, Null, Mark ''O''] ''X'')
        \<noteq> ByOpening
   \<and> via (getBestMove (\<lambda>_. 1 / 2)
          [Mark ''X'', Mark ''X'', Null, Mark ''O'', Mark ''O'', Null, Null, Null, Null] ''X'')
        = ByWin"
proof -
  let ?g = "\<lambda>_::nat. 1 / 2 :: real"
  let ?b1 = "[Null, Null, Null, Null, Mark ''O'', Null, Null, Null, Null]"
  let ?b3 = "[Mark ''X'', Null, Null, Null, Mark ''O'', Null, Null, Null, Mark ''O'']"
  let ?b4 = "[Mark ''X'', Mark ''X'', Null, Mark ''O'', Mark ''O'', Null, Null, Null, Null]"
  have am: "availableMoves ?b1 = [0, 1, 2, 3, 5, 6, 7, 8]"
    by (simp add: availableMoves_def upt_rec)
  have h: "length ?b1 = 9 \<and> \<not> ?g 0 < 0.2 \<and> length (filter (\<lambda>c. c \<noteq> Null) ?b1) = 1
           \<and> 0 \<le> ?g 1 \<and> ?g 1 < 1"
    by simp
  note t1 = opening_branch_scope [of ?g ?b1 "''X''"]
  from t1 h have v1: "via (getBestMove ?g ?b1 ''X'') = ByOpening"
    by blast
  from t1 h have cells:
    "\<forall>k<8. (chosen (getBestMove ?g ?b1 ''X'') = Num (int (availableMoves ?b1 ! k)))
            = (real k \<le> ?g 1 * 8 \<and> ?g 1 * 8 < real k + 1)"
    by blast
  from cells [rule_format, of 4] have c5: "chosen (getBestMove ?g ?b1 ''X'') = Num 5"
    by (simp add: am)
  from cells [rule_format, of 3] have c3: "chosen (getBestMove ?g ?b1 ''X'') \<noteq> Num 3"
    by (simp add: am)
  have h3: "length (filter (\<lambda>c. c \<noteq> Null) ?b3) \<noteq> 1" by simp
  from opening_branch_scope [of ?g ?b3 "''X''"] h3
  have v3: "via (getBestMove ?g ?b3 ''X'') \<noteq> ByOpening"
    by blast
  have w: "\<exists>j<9. winning_cell ?b4 ''X'' j"
    by (rule exI [of _ 2]) (simp add: winning_cell_def cell_at_def checkWin_unfold)
  have h4: "\<not> ?g 0 < 0.2 \<and> length (filter (\<lambda>c. c \<noteq> Null) ?b4) \<noteq> 1" by simp
  from opening_branch_scope [of ?g ?b4 "''X''"] h4 w
  have v4: "via (getBestMove ?g ?b4 ''X'') = ByWin"
    by blast
  from v1 c5 c3 v3 v4 show ?thesis
    by (simp add: am)
qed

text \<open>
  C8, as amended. On a board with no empty cell \<open>getBestMove\<close> raises nothing: every
  list of available moves is empty, the indexed read yields \<^verbatim>\<open>undefined\<close>, and that is
  what the function returns; the board is left as it was.
\<close>

theorem getBestMove_full_board_undefined:
  assumes "list_all (\<lambda>c. c \<noteq> Null) b"
  shows "chosen (getBestMove g b player) = Undefined
         \<and> board_after (getBestMove g b player) = b"
  using getBestMove_full [OF assms] board_after_getBestMove by simp

theorem getBestMove_full_board_undefined_witness:
  "list_all (\<lambda>c. c \<noteq> Null)
     [Mark ''O'', Mark ''X'', Mark ''O'', Mark ''O'', Mark ''X'', Mark ''X'',
      Mark ''X'', Mark ''O'', Mark ''O'']
   \<and> chosen (getBestMove (\<lambda>_. 9 / 10)
        [Mark ''O'', Mark ''X'', Mark ''O'', Mark ''O'', Mark ''X'', Mark ''X'',
         Mark ''X'', Mark ''O'', Mark ''O''] ''X'') = Undefined"
proof -
  let ?b = "[Mark ''O'', Mark ''X'', Mark ''O'', Mark ''O'', Mark ''X'', Mark ''X'',
             Mark ''X'', Mark ''O'', Mark ''O'']"
  have h: "list_all (\<lambda>c. c \<noteq> Null) ?b" by simp
  show ?thesis
    using getBestMove_full_board_undefined [OF h, of "\<lambda>_. 9 / 10" "''X''"] h by simp
qed

text \<open>
  C8, as stated, fails: on a full board the policy returns \<^verbatim>\<open>undefined\<close> to its caller
  instead of failing with an error.
\<close>

theorem getBestMove_full_board_counterexample:
  "chosen (getBestMove (\<lambda>_. 1 / 2)
     [Mark ''O'', Mark ''X'', Mark ''O'', Mark ''O'', Mark ''X'', Mark ''X'',
      Mark ''X'', Mark ''O'', Mark ''O''] ''X'') = Undefined"
  by (rule getBestMove_full) simp

text \<open>
  C9. Whatever \<open>getBestMove\<close> returns on a board with an empty cell, the board holds at
  return what it held at entry: each hypothetical placement of the two searches is undone.
\<close>

theorem getBestMove_leaves_board:
  assumes "list_ex (\<lambda>c. c = Null) b"
  shows "board_after (getBestMove g b player) = b"
  by (rule board_after_getBestMove)

theorem getBestMove_leaves_board_witness:
  "list_ex (\<lambda>c. c = Null)
     [Mark ''O'', Mark ''O'', Null, Mark ''X'', Null, Null, Null, Null, Null]
   \<and> board_after (getBestMove (\<lambda>_. 1 / 2)
        [Mark ''O'', Mark ''O'', Null, Mark ''X'', Null, Null, Null, Null, Null] ''X'')
      = [Mark ''O'', Mark ''O'', Null, Mark ''X'', Null, Null, Null, Null, Null]"
proof -
  let ?b = "[Mark ''O'', Mark ''O'', Null, Mark ''X'', Null, Null, Null, Null, Null]"
  have h: "list_ex (\<lambda>c. c = Null) ?b" by simp
  show ?thesis
    using getBestMove_leaves_board [OF h, of "\<lambda>_. 1 / 2" "''X''"] h by simp
qed

section \<open>Properties of the move handler\<close>

lemma find_move_Some_winning:
  "fst (find_move mark i b) = Some k \<Longrightarrow> winning_cell b mark k"
proof (induction "9 - i" arbitrary: i)
  case 0
  then show ?case by (subst (asm) find_move_step) simp
next
  case (Suc n)
  note step = find_move_step [of mark i b]
  show ?case
  proof (cases "i < 9 \<and> \<not> winning_cell b mark i")
    case True
    then have "find_move mark i b = find_move mark (Suc i) b"
      using step by simp
    with Suc.prems have "fst (find_move mark (Suc i) b) = Some k" by simp
    moreover have "n = 9 - Suc i" using Suc.hyps(2) by simp
    ultimately show ?thesis using Suc.hyps(1) by blast
  next
    case False
    then show ?thesis using Suc.prems step by (auto split: if_splits)
  qed
qed

lemma chosen_cases:
  "chosen (getBestMove g b player) = Undefined
   \<or> (\<exists>i. chosen (getBestMove g b player) = Num (int i) \<and> cell_at b i = Some Null)"
proof -
  have rnd: "pick (availableMoves b) r = Undefined
      \<or> (\<exists>i. pick (availableMoves b) r = Num (int i) \<and> cell_at b i = Some Null)" for r
    using pick_cases [of "availableMoves b" r] by (auto simp: set_availableMoves)
  have fm: "fst (find_move mark 0 b) = Some k \<Longrightarrow> cell_at b k = Some Null" for mark k
    using find_move_Some_winning [of mark 0 b k] by (simp add: winning_cell_def)
  show ?thesis
    unfolding getBestMove_def Let_def
    using rnd fm
    by (auto simp: case_find_move Math_random_def randomMove_def split: option.splits)
qed

lemma board_set_length [simp]: "length (board_set b v c) = length b"
  by (simp add: board_set_def split: index.splits)

lemma board_set_keeps:
  assumes "board_at b v = Some Null" and "i < length b" and "b ! i \<noteq> Null"
  shows "board_set b v c ! i = b ! i"
  using assms
  by (auto simp: board_set_def board_at_def cell_at_def nth_list_update split: index.splits if_splits)

lemma board_set_Undefined [simp]: "board_set b Undefined c = b"
  by (simp add: board_set_def)

lemma board_at_Num_nat: "board_at b (Num (int i)) = cell_at b i"
  by (simp add: board_at_def)

lemma computer_keeps:
  assumes "i < length b" and "b ! i \<noteq> Null"
  shows "board_set (board_after (getBestMove g b player)) (chosen (getBestMove g b player)) c ! i
         = b ! i"
proof -
  from chosen_cases [of g b player] show ?thesis
  proof
    assume "chosen (getBestMove g b player) = Undefined"
    then show ?thesis by (simp add: board_after_getBestMove)
  next
    assume "\<exists>k. chosen (getBestMove g b player) = Num (int k) \<and> cell_at b k = Some Null"
    then obtain k where k: "chosen (getBestMove g b player) = Num (int k)"
      "cell_at b k = Some Null" by blast
    then have "board_at b (chosen (getBestMove g b player)) = Some Null"
      by (simp add: board_at_Num_nat)
    from board_set_keeps [OF this assms] show ?thesis
      by (simp add: board_after_getBestMove)
  qed
qed

lemma processMove_keeps_marks:
  assumes "i < length (board st)" and "board st ! i \<noteq> Null"
  shows "board (state (processMove g username st mv)) ! i = board st ! i"
proof (cases "board_at (board st) mv = Some Null \<and> \<not> isGameOver st")
  case False
  then show ?thesis by (auto simp: processMove_def)
next
  case True
  let ?b1 = "board_set (board st) mv (Mark ''O'')"
  have b1: "?b1 ! i = board st ! i"
    using True assms by (intro board_set_keeps) auto
  have "i < length ?b1" and "?b1 ! i \<noteq> Null" using assms b1 by simp_all
  from computer_keeps [OF this] b1
  have b2: "board_set (board_after (getBestMove g ?b1 ''X'')) (chosen (getBestMove g ?b1 ''X''))
              (Mark ''X'') ! i = board st ! i"
    by simp
  show ?thesis
    using True b1 b2 by (simp add: processMove_def Let_def)
qed

lemma processMove_length:
  "length (board (state (processMove g username st mv))) = length (board st)"
  by (simp add: processMove_def Let_def board_after_getBestMove)

lemma processMove_taken:
  assumes "\<not> isGameOver st" and "board_at (board st) mv = Some c" and "c \<noteq> Null"
  shows "processMove g username st mv =
           \<lparr>state = st, message = ''That spot is already taken! Choose another.'',
            gameResult = None\<rparr>"
  using assms by (simp add: processMove_def)

text \<open>
  The handler asks the policy for a move only while the board has an empty cell: when the
  player's move fills the board it replies with the win or the tie, whatever the random
  source, and no call of \<open>getBestMove\<close> is made.
\<close>

lemma processMove_full_board:
  assumes "board_at (board st) mv = Some Null" and "\<not> isGameOver st"
    and "list_all (\<lambda>c. c \<noteq> Null) (board_set (board st) mv (Mark ''O''))"
  shows "processMove g username st mv =
           (if checkWin (board_set (board st) mv (Mark ''O'')) then
              \<lparr>state = st\<lparr>board := board_set (board st) mv (Mark ''O''), isGameOver := True\<rparr>,
               message = username @ '' wins! Game over.'', gameResult = Some ''win''\<rparr>
            else
              \<lparr>state = st\<lparr>board := board_set (board st) mv (Mark ''O''), isGameOver := True\<rparr>,
               message = ''Game over! It's a Tie.'', gameResult = Some ''draw''\<rparr>)"
  using assms by (simp add: processMove_def Let_def)

lemma processMove_over:
  assumes "isGameOver st"
  shows "processMove g username st mv =
           \<lparr>state = st, message = ''Game is over. Start a new game!'', gameResult = None\<rparr>"
  using assms by (simp add: processMove_def)

lemma lineage_over:
  "isGameOver st \<Longrightarrow> lineage username st reqs = st"
  by (induction reqs arbitrary: st) (auto simp: processMove_over)

lemma processMove_monotone:
  "isGameOver st \<Longrightarrow> isGameOver (state (processMove g username st mv))"
  by (simp add: processMove_over)

section \<open>Properties of the codec\<close>

subsection \<open>Base64\<close>

lemma b64char_table:
  "\<forall>n<64. unbase64 (b64char n) = Some n \<and> b64char n \<noteq> CHR ''=''"
  by (simp add: eval_nat_numeral All_less_Suc b64char_def unbase64_def)

lemma sextet_bounds:
  fixes x y :: nat
  shows "x < 256 \<Longrightarrow> x div 4 < 64"
    and "y < 256 \<Longrightarrow> x mod 4 * 16 + y div 16 < 64"
    and "y < 256 \<Longrightarrow> x mod 16 * 4 + y div 64 < 64"
    and "x mod 64 < 64" and "x mod 4 * 16 < 64" and "x mod 16 * 4 < 64"
  by simp_all

lemma sextet_split:
  fixes x y :: nat
  shows "y < 256 \<Longrightarrow> (x mod 4 * 16 + y div 16) div 16 = x mod 4"
    and "y < 256 \<Longrightarrow> (x mod 4 * 16 + y div 16) mod 16 = y div 16"
    and "y < 256 \<Longrightarrow> (x mod 16 * 4 + y div 64) div 4 = x mod 16"
    and "y < 256 \<Longrightarrow> (x mod 16 * 4 + y div 64) mod 4 = y div 64"
  by simp_all

lemma byte_small:
  fixes y :: nat
  shows "y < 256 \<Longrightarrow> y div 16 div 16 = 0"
    and "y < 256 \<Longrightarrow> y div 16 mod 16 = y div 16"
    and "y < 256 \<Longrightarrow> y div 64 div 4 = 0"
    and "y < 256 \<Longrightarrow> y div 64 mod 4 = y div 64"
  by (simp_all add: div_mult2_eq [symmetric] less_mult_imp_div_less)

lemma decode_chars_Cons:
  "n < 64 \<Longrightarrow> decode_chars (b64char n # rest) = n # decode_chars rest"
  using b64char_table by (simp add: decode_chars_def map_filter_simps)

lemma decode_chars_pad: "decode_chars (CHR ''='' # rest) = []"
  by (simp add: decode_chars_def map_filter_simps)

lemma decode_chars_Nil: "decode_chars [] = []"
  by (simp add: decode_chars_def map_filter_simps)

lemma b64decode_alt: "b64decode token = from_sextets (decode_chars token)"
  by (simp add: b64decode_def decode_chars_def)

lemma b64_roundtrip: "b64decode (b64encode s) = s"
  unfolding b64decode_alt
proof (induction s rule: b64encode.induct)
  case 1
  show ?case by (simp add: decode_chars_Nil)
next
  case (2 a)
  show ?case
    by (simp add: decode_chars_Cons decode_chars_pad sextet_bounds sextet_split byte_small)
next
  case (3 a b)
  show ?case
    by (simp add: decode_chars_Cons decode_chars_pad sextet_bounds sextet_split byte_small)
next
  case (4 a b c rest)
  then show ?case
    by (simp add: decode_chars_Cons sextet_bounds sextet_split byte_small)
qed

subsection \<open>Parsing the text of a state\<close>

lemma join_Cons2: "xs \<noteq> [] \<Longrightarrow> join (x # xs) = x @ CHR '','' # join xs"
  by (cases xs) simp_all

lemma cells_text_single: "cells_text [c] = stringify (cell_json c)"
  by (simp add: cells_text_def)

lemma cells_text_Cons:
  "cs \<noteq> [] \<Longrightarrow> cells_text (c # cs) = stringify (cell_json c) @ CHR '','' # cells_text cs"
  by (simp add: cells_text_def join_Cons2)

lemma skip_ws_Cons: "\<not> is_ws c \<Longrightarrow> skip_ws (c # s) = c # s"
  by (simp add: skip_ws_def)

lemma parse_chars_quote: "parse_chars (CHR 0x22 # r) = Ok [] r"
  by (cases r) simp_all

lemma parse_cell:
  assumes "valid_cell c"
  shows "parse_value (Suc n) (stringify (cell_json c) @ r) = Ok (cell_json c) r"
  using assms
  by (auto simp: valid_cell_def cell_json_def parse_value.simps(2) skip_ws_def is_ws_def
      quote_def quote_char_def bind_parsed_def parse_chars_quote)

lemma cell_text_head:
  assumes "valid_cell c"
  shows "\<exists>h t. stringify (cell_json c) = h # t \<and> \<not> is_ws h \<and> h \<noteq> CHR '']''"
  using assms
  by (auto simp: valid_cell_def cell_json_def quote_def quote_char_def is_ws_def)

lemma parse_cells:
  assumes "list_all valid_cell cs" and "cs \<noteq> []" and "length cs \<le> n"
  shows "parse_elems (Suc n) (cells_text cs @ CHR '']'' # r) = Ok (map cell_json cs) r"
  using assms
proof (induction cs arbitrary: n)
  case Nil
  then show ?case by simp
next
  case (Cons c cs)
  from Cons.prems obtain k where n: "n = Suc k" by (cases n) auto
  have c: "valid_cell c" using Cons.prems by simp
  show ?case
  proof (cases "cs = []")
    case True
    then show ?thesis
      by (simp add: parse_elems.simps(2) n cells_text_single parse_cell [OF c] bind_parsed_def
          skip_ws_def is_ws_def)
  next
    case False
    have ih: "parse_elems (Suc k) (cells_text cs @ CHR '']'' # r) = Ok (map cell_json cs) r"
      using Cons.IH [of k] Cons.prems False n by simp
    show ?thesis
      unfolding n cells_text_Cons [OF False]
      by (subst parse_elems.simps(2))
        (simp add: parse_cell [OF c] bind_parsed_def skip_ws_def is_ws_def ih)
  qed
qed

lemma cells_text_head:
  assumes "list_all valid_cell cs" and "cs \<noteq> []"
  shows "\<exists>h t. cells_text cs = h # t \<and> \<not> is_ws h \<and> h \<noteq> CHR '']''"
proof -
  from assms obtain c cs' where cs: "cs = c # cs'" and c: "valid_cell c"
    by (cases cs) auto
  from cell_text_head [OF c] obtain h t where
    h: "stringify (cell_json c) = h # t" "\<not> is_ws h" "h \<noteq> CHR '']''" by blast
  show ?thesis
  proof (cases "cs' = []")
    case True
    with cs h show ?thesis by (simp add: cells_text_single)
  next
    case False
    with cs h show ?thesis by (simp add: cells_text_Cons)
  qed
qed

lemma parse_board:
  assumes "list_all valid_cell cs" and "cs \<noteq> []" and "length cs \<le> n"
  shows "parse_value (Suc (Suc n)) (CHR ''['' # cells_text cs @ CHR '']'' # r)
         = Ok (JArr (map cell_json cs)) r"
proof -
  from cells_text_head [OF assms(1,2)] obtain h t where
    h: "cells_text cs = h # t" "\<not> is_ws h" "h \<noteq> CHR '']''" by blast
  note pc = parse_cells [OF assms, of r, unfolded h(1), simplified]
  show ?thesis
    unfolding h(1)
    by (subst parse_value.simps(2))
      (simp add: skip_ws_def is_ws_def h(2,3) [unfolded is_ws_def] pc bind_parsed_def)
qed


lemma stringify_board: "stringify (JArr (map cell_json b)) = CHR ''['' # cells_text b @ '']''"
  by (simp add: cells_text_def)

lemma skip_ws_step: "skip_ws (c # s) = (if is_ws c then skip_ws s else c # s)"
  by (simp add: skip_ws_def)

lemma parse_value_string:
  "parse_value (Suc n) (CHR 0x22 # s) = bind_parsed (parse_chars s) (\<lambda>str r'. Ok (JStr str) r')"
  by (subst parse_value.simps(2)) (simp add: skip_ws_step is_ws_def)

lemma parse_value_true: "parse_value (Suc n) (CHR ''t'' # CHR ''r'' # CHR ''u'' # CHR ''e'' # r) = Ok (JBool True) r"
  by (subst parse_value.simps(2)) (simp add: skip_ws_step is_ws_def)

lemma parse_value_false:
  "parse_value (Suc n) (CHR ''f'' # CHR ''a'' # CHR ''l'' # CHR ''s'' # CHR ''e'' # r) = Ok (JBool False) r"
  by (subst parse_value.simps(2)) (simp add: skip_ws_step is_ws_def)

lemma parse_value_object:
  "parse_value (Suc n) (CHR ''{'' # CHR 0x22 # s) =
     bind_parsed (parse_members n (CHR 0x22 # s))
       (\<lambda>members r'. if list_ex (\<lambda>(k, v). index_key k) members then Unsupported
                      else Ok (JObj (build_object members)) r')"
  by (subst parse_value.simps(2)) (simp add: skip_ws_step is_ws_def)

lemma parse_members_key:
  "parse_members (Suc n) (CHR 0x22 # s) =
     bind_parsed (parse_chars s)
       (\<lambda>k r1.
          case skip_ws r1 of
            [] \<Rightarrow> SyntaxErr
          | c # r2 \<Rightarrow>
              if c \<noteq> CHR '':'' then SyntaxErr
              else
                bind_parsed (parse_value n r2)
                  (\<lambda>v r3.
                     case skip_ws r3 of
                       [] \<Rightarrow> SyntaxErr
                     | d # r4 \<Rightarrow>
                         if d = CHR '','' then
                           bind_parsed (parse_members n r4) (\<lambda>kvs r5. Ok ((k, v) # kvs) r5)
                         else if d = CHR ''}'' then Ok [(k, v)] r4
                         else SyntaxErr))"
  by (subst parse_members.simps(2)) (simp add: skip_ws_step is_ws_def)

lemma bind_Ok: "bind_parsed (Ok v r) f = f v r"
  by (simp add: bind_parsed_def)

lemmas parse_eval =
  parse_value_string parse_value_true parse_value_false parse_value_object parse_members_key
  bind_Ok skip_ws_step is_ws_def parse_chars_quote

lemma parse_state:
  assumes "valid_state st" and "7 \<le> m"
  shows "parse_value (Suc (Suc (Suc (Suc (Suc (Suc m))))))
           (stringify (GameState_json st)) = Ok (GameState_json st) []"
proof -
  have vb: "list_all valid_cell (board st)" "board st \<noteq> []" "length (board st) \<le> Suc (Suc m)"
    using assms by (auto simp: valid_state_def valid_board_def)
  note pb = parse_board [OF vb]
  have p: "currentPlayer st = ''O'' \<or> currentPlayer st = ''X''"
    and d: "difficulty st = ''easy'' \<or> difficulty st = ''medium'' \<or> difficulty st = ''hard''"
    using assms by (auto simp: valid_state_def)
  have ik: "\<not> index_key ''board''" "\<not> index_key ''currentPlayer''"
    "\<not> index_key ''isGameOver''" "\<not> index_key ''difficulty''"
    by (simp_all add: index_key_def is_digit_def)
  show ?thesis
    using p d
    by (cases "isGameOver st")
      (auto simp: GameState_json_def stringify_board quote_def quote_char_def parse_eval pb
        build_object_def ik
        simp del: stringify.simps(4))
qed


lemma ascii_append [simp]: "ascii (xs @ ys) = (ascii xs \<and> ascii ys)"
  by (simp add: ascii_def)

lemma ascii_Cons [simp]: "ascii (c # s) = ((of_char c :: nat) < 128 \<and> ascii s)"
  by (simp add: ascii_def)

lemma ascii_Nil [simp]: "ascii []"
  by (simp add: ascii_def)

lemma ascii_cell: "valid_cell c \<Longrightarrow> ascii (stringify (cell_json c))"
  by (auto simp: valid_cell_def cell_json_def quote_def quote_char_def)

lemma ascii_cells_text: "list_all valid_cell b \<Longrightarrow> ascii (cells_text b)"
proof (induction b)
  case Nil
  show ?case by (simp add: cells_text_def)
next
  case (Cons c b)
  then show ?case
    by (cases "b = []") (simp_all add: cells_text_single cells_text_Cons ascii_cell)
qed

lemma ascii_state:
  assumes "valid_state st"
  shows "ascii (stringify (GameState_json st))"
proof -
  have "ascii (cells_text (board st))"
    using assms by (intro ascii_cells_text) (simp add: valid_state_def valid_board_def)
  moreover have "currentPlayer st = ''O'' \<or> currentPlayer st = ''X''"
    and "difficulty st = ''easy'' \<or> difficulty st = ''medium'' \<or> difficulty st = ''hard''"
    using assms by (auto simp: valid_state_def)
  ultimately show ?thesis
    by (auto simp: GameState_json_def stringify_board quote_def quote_char_def
        simp del: stringify.simps(4))
qed

lemma toString_ascii: "ascii s \<Longrightarrow> toString s = Some s"
  by (simp add: toString_def ascii_def)

lemma long_state: "6 \<le> length (stringify (GameState_json st))"
  by (simp add: GameState_json_def stringify_board quote_def del: stringify.simps(4))

lemma fuel_form:
  assumes "6 \<le> (l::nat)"
  shows "\<exists>m. 7 \<le> m \<and> 2 * l + 2 = Suc (Suc (Suc (Suc (Suc (Suc m)))))"
  using assms by (intro exI [of _ "2 * l - 4"]) arith

lemma JSON_parse_state:
  assumes "valid_state st"
  shows "JSON_parse (stringify (GameState_json st)) = Returns (GameState_json st)"
proof -
  from fuel_form [OF long_state [of st]] obtain m where
    m: "7 \<le> m"
    "2 * length (stringify (GameState_json st)) + 2 = Suc (Suc (Suc (Suc (Suc (Suc m)))))"
    by blast
  show ?thesis
    unfolding JSON_parse_def m(2) parse_state [OF assms m(1)]
    by (simp add: skip_ws_def)
qed

lemma with_difficulty_state:
  assumes "difficulty st \<noteq> []"
  shows "with_difficulty (GameState_json st) = Returns (GameState_json st)"
  using assms by (simp add: with_difficulty_def GameState_json_def)

lemma decodeState_encodeState:
  assumes "valid_state st"
  shows "decodeState (encodeState (GameState_json st)) = Returns (GameState_json st)"
proof -
  have "difficulty st \<noteq> []" using assms by (auto simp: valid_state_def)
  then show ?thesis
    by (simp add: decodeState_def encodeState_def b64_roundtrip
        toString_ascii [OF ascii_state [OF assms]] JSON_parse_state [OF assms]
        with_difficulty_state)
qed

lemma json_cells_map: "json_cells (map cell_json b) = Some b"
  by (induction b) (auto simp: cell_json_def split: cell.splits)

lemma as_GameState_json: "as_GameState (GameState_json st) = Some st"
  by (simp add: as_GameState_def GameState_json_def json_cells_map)

lemma parse_state_v0:
  assumes "valid_board b" and "player = ''O'' \<or> player = ''X''" and "7 \<le> m"
  shows "parse_value (Suc (Suc (Suc (Suc (Suc (Suc m))))))
           (stringify (GameState_v0_json b player over)) = Ok (GameState_v0_json b player over) []"
proof -
  have vb: "list_all valid_cell b" "b \<noteq> []" "length b \<le> Suc (Suc m)"
    using assms by (auto simp: valid_board_def)
  note pb = parse_board [OF vb]
  have ik: "\<not> index_key ''board''" "\<not> index_key ''currentPlayer''"
    "\<not> index_key ''isGameOver''"
    by (simp_all add: index_key_def is_digit_def)
  show ?thesis
    using assms(2)
    by (cases over)
      (auto simp: GameState_v0_json_def stringify_board quote_def quote_char_def parse_eval pb
        build_object_def ik
        simp del: stringify.simps(4))
qed

lemma ascii_state_v0:
  assumes "valid_board b" and "player = ''O'' \<or> player = ''X''"
  shows "ascii (stringify (GameState_v0_json b player over))"
proof -
  have "ascii (cells_text b)"
    using assms by (intro ascii_cells_text) (simp add: valid_board_def)
  then show ?thesis
    using assms(2)
    by (auto simp: GameState_v0_json_def stringify_board quote_def quote_char_def
        simp del: stringify.simps(4))
qed

lemma long_state_v0: "6 \<le> length (stringify (GameState_v0_json b player over))"
  by (simp add: GameState_v0_json_def stringify_board quote_def del: stringify.simps(4))

lemma decodeState_v0_encodeState:
  assumes "valid_board b" and "player = ''O'' \<or> player = ''X''"
  shows "decodeState_v0 (encodeState (GameState_v0_json b player over))
         = Returns (GameState_v0_json b player over)"
proof -
  let ?text = "stringify (GameState_v0_json b player over)"
  from fuel_form [OF long_state_v0 [of b player over]] obtain m where
    m: "7 \<le> m" "2 * length ?text + 2 = Suc (Suc (Suc (Suc (Suc (Suc m)))))"
    by blast
  have "JSON_parse ?text = Returns (GameState_v0_json b player over)"
    unfolding JSON_parse_def m(2) parse_state_v0 [OF assms m(1)]
    by (simp add: skip_ws_def)
  then show ?thesis
    by (simp add: decodeState_v0_def encodeState_def b64_roundtrip
        toString_ascii [OF ascii_state_v0 [OF assms]])
qed

text \<open>
  C1. For every valid state (nine cells of \<^verbatim>\<open>null\<close>, \<^verbatim>\<open>'O'\<close> or \<^verbatim>\<open>'X'\<close>, a current
  player, the game-over flag and a difficulty of the three levels), decoding the encoded
  state returns the same object, field for field and in the same key order, and its typed
  view is the state itself. The same holds for the first version of the codec, whose states
  carry no difficulty.
\<close>

theorem codec_round_trip:
  assumes "valid_state p"
  shows "decodeState (encodeState (GameState_json p)) = Returns (GameState_json p)
         \<and> as_GameState (GameState_json p) = Some p
         \<and> decodeState_v0
              (encodeState (GameState_v0_json (board p) (currentPlayer p) (isGameOver p)))
            = Returns (GameState_v0_json (board p) (currentPlayer p) (isGameOver p))"
proof -
  have "valid_board (board p)" and "currentPlayer p = ''O'' \<or> currentPlayer p = ''X''"
    using assms by (auto simp: valid_state_def)
  from decodeState_v0_encodeState [OF this] decodeState_encodeState [OF assms]
  show ?thesis by (simp add: as_GameState_json)
qed

theorem codec_round_trip_witness:
  "valid_state
     \<lparr>board = [Mark ''O'', Null, Null, Null, Mark ''X'', Null, Null, Null, Null],
      currentPlayer = ''O'', isGameOver = False, difficulty = ''easy''\<rparr>
   \<and> decodeState (encodeState (GameState_json
        \<lparr>board = [Mark ''O'', Null, Null, Null, Mark ''X'', Null, Null, Null, Null],
         currentPlayer = ''O'', isGameOver = False, difficulty = ''easy''\<rparr>))
      = Returns (GameState_json
        \<lparr>board = [Mark ''O'', Null, Null, Null, Mark ''X'', Null, Null, Null, Null],
         currentPlayer = ''O'', isGameOver = False, difficulty = ''easy''\<rparr>)"
proof -
  let ?p = "\<lparr>board = [Mark ''O'', Null, Null, Null, Mark ''X'', Null, Null, Null, Null],
      currentPlayer = ''O'', isGameOver = False, difficulty = ''easy''\<rparr>"
  have v: "valid_state ?p"
    by (simp add: valid_state_def valid_board_def valid_cell_def)
  show ?thesis
    using codec_round_trip [OF v] v by simp
qed

section \<open>The fuel of the parser\<close>

text \<open>
  A successful parse consumes text, and the fuel \<open>JSON_parse\<close> provides is never
  exhausted: the answer \<open>OutOfFuel\<close> does not occur at the top level.
\<close>

lemma bind_OkE:
  assumes "bind_parsed p f = Ok y r'"
  obtains x r where "p = Ok x r" and "f x r = Ok y r'"
  using assms by (cases p) (simp_all add: bind_parsed_def)

lemma bind_fuel_iff:
  "(bind_parsed p f = OutOfFuel) = (p = OutOfFuel \<or> (\<exists>x r. p = Ok x r \<and> f x r = OutOfFuel))"
  by (cases p) (simp_all add: bind_parsed_def)

lemma length_skip_ws: "length (skip_ws s) \<le> length s"
  by (simp add: skip_ws_def length_dropWhile_le)

lemma skip_ws_ConsD: "skip_ws s = c # r \<Longrightarrow> length r < length s"
  using length_skip_ws [of s] by simp

lemma parse_chars_consumes: "parse_chars s = Ok x r \<Longrightarrow> length r < length s"
proof (induction s arbitrary: x r rule: parse_chars.induct)
  case 1
  then show ?case by simp
next
  case (2 c)
  then show ?case by (simp split: if_splits)
next
  case (3 c e rest)
  show ?case
  proof (cases "c = CHR 0x22")
    case True
    with "3.prems" show ?thesis by simp
  next
    case nq: False
    show ?thesis
    proof (cases "c = CHR 0x5C")
      case True
      with nq "3.prems" obtain d where d: "e \<noteq> CHR ''u''" "unescape e = Some d"
        and b: "bind_parsed (parse_chars rest) (\<lambda>s r. Ok (d # s) r) = Ok x r"
        by (auto split: if_splits option.splits)
      from b obtain s' r' where "parse_chars rest = Ok s' r'" and "Ok (d # s') r' = Ok x r"
        by (rule bind_OkE)
      with "3.IH"(1) [OF nq True d(1,2)] show ?thesis by fastforce
    next
      case False
      with nq "3.prems" have c32: "\<not> (of_char c :: nat) < 32"
        and b: "bind_parsed (parse_chars (e # rest)) (\<lambda>s r. Ok (c # s) r) = Ok x r"
        by (auto split: if_splits)
      from b obtain s' r' where "parse_chars (e # rest) = Ok s' r'" and "Ok (c # s') r' = Ok x r"
        by (rule bind_OkE)
      with "3.IH"(2) [OF nq False c32] show ?thesis by fastforce
    qed
  qed
qed

lemma parse_chars_fuel: "parse_chars s \<noteq> OutOfFuel"
proof (induction s rule: parse_chars.induct)
  case 1
  show ?case by simp
next
  case (2 c)
  show ?case by simp
next
  case (3 c e rest)
  then show ?case
    by (auto simp: bind_fuel_iff split: option.splits)
qed


lemma parse_consumes:
  "(\<forall>s v r. parse_value n s = Ok v r \<longrightarrow> length r < length s)
   \<and> (\<forall>s vs r. parse_elems n s = Ok vs r \<longrightarrow> length r < length s)
   \<and> (\<forall>s kvs r. parse_members n s = Ok kvs r \<longrightarrow> length r < length s)"
proof (induction n)
  case 0
  show ?case by (simp add: parse_value.simps(1) parse_elems.simps(1) parse_members.simps(1))
next
  case (Suc n)
  then have v: "\<And>s v r. parse_value n s = Ok v r \<Longrightarrow> length r < length s"
    and e: "\<And>s vs r. parse_elems n s = Ok vs r \<Longrightarrow> length r < length s"
    and m: "\<And>s kvs r. parse_members n s = Ok kvs r \<Longrightarrow> length r < length s"
    by blast+
  have V: "length r < length s" if a: "parse_value (Suc n) s = Ok v r" for s v r
  proof (cases "skip_ws s")
    case Nil
    with a show ?thesis by (simp add: parse_value.simps(2))
  next
    case (Cons c t)
    note len = skip_ws_ConsD [OF Cons]
    have lt: "length (skip_ws t) \<le> length t" by (rule length_skip_ws)
    consider (lit) "c = CHR ''n'' \<or> c = CHR ''t'' \<or> c = CHR ''f''"
      | (str) "c = CHR 0x22" | (arr) "c = CHR ''[''" | (obj) "c = CHR ''{''"
      | (other) "c \<noteq> CHR ''n''" "c \<noteq> CHR ''t''" "c \<noteq> CHR ''f''" "c \<noteq> CHR 0x22"
          "c \<noteq> CHR ''[''" "c \<noteq> CHR ''{''"
      by blast
    then show ?thesis
    proof cases
      case lit
      with a Cons len show ?thesis
        by (auto simp: parse_value.simps(2) split: if_splits)
    next
      case str
      with a Cons have "bind_parsed (parse_chars t) (\<lambda>str r'. Ok (JStr str) r') = Ok v r"
        by (simp add: parse_value.simps(2))
      then obtain x r' where "parse_chars t = Ok x r'" and "Ok (JStr x) r' = Ok v r"
        by (rule bind_OkE)
      with parse_chars_consumes [of t x r'] len show ?thesis by simp
    next
      case arr
      show ?thesis
      proof (cases "take 1 (skip_ws t) = '']''")
        case True
        with a Cons arr have "r = drop 1 (skip_ws t)" by (simp add: parse_value.simps(2))
        with lt len show ?thesis by simp
      next
        case False
        with a Cons arr have "bind_parsed (parse_elems n t) (\<lambda>vs r'. Ok (JArr vs) r') = Ok v r"
          by (simp add: parse_value.simps(2))
        then obtain x r' where "parse_elems n t = Ok x r'" and "Ok (JArr x) r' = Ok v r"
          by (rule bind_OkE)
        with e [of t x r'] len show ?thesis by simp
      qed
    next
      case obj
      show ?thesis
      proof (cases "take 1 (skip_ws t) = ''}''")
        case True
        with a Cons obj have "r = drop 1 (skip_ws t)" by (simp add: parse_value.simps(2))
        with lt len show ?thesis by simp
      next
        case False
        with a Cons obj have "bind_parsed (parse_members n t)
            (\<lambda>members r'. if list_ex (\<lambda>(k, v). index_key k) members then Unsupported
                           else Ok (JObj (build_object members)) r') = Ok v r"
          by (simp add: parse_value.simps(2))
        then obtain x r' where "parse_members n t = Ok x r'"
          and "(if list_ex (\<lambda>(k, v). index_key k) x then Unsupported
                else Ok (JObj (build_object x)) r') = Ok v r"
          by (rule bind_OkE)
        with m [of t x r'] len show ?thesis by (simp split: if_splits)
      qed
    next
      case other
      with a Cons show ?thesis by (simp add: parse_value.simps(2) split: if_splits)
    qed
  qed
  have E: "length r < length s" if a: "parse_elems (Suc n) s = Ok vs r" for s vs r
  proof -
    from a [unfolded parse_elems.simps(2)] obtain x r1 where
      x: "parse_value n s = Ok x r1"
      and k: "(case skip_ws r1 of [] \<Rightarrow> SyntaxErr
          | c # r' \<Rightarrow>
              if c = CHR '','' then bind_parsed (parse_elems n r') (\<lambda>vs r''. Ok (x # vs) r'')
              else if c = CHR '']'' then Ok [x] r' else SyntaxErr) = Ok vs r"
      by (rule bind_OkE)
    note l1 = v [OF x]
    from k obtain c r' where sk: "skip_ws r1 = c # r'" by (cases "skip_ws r1") auto
    note l2 = skip_ws_ConsD [OF sk]
    show ?thesis
    proof (cases "c = CHR '',''")
      case True
      with k sk have "bind_parsed (parse_elems n r') (\<lambda>vs r''. Ok (x # vs) r'') = Ok vs r"
        by simp
      then obtain y r'' where "parse_elems n r' = Ok y r''" and "Ok (x # y) r'' = Ok vs r"
        by (rule bind_OkE)
      with e [of r' y r''] l1 l2 show ?thesis by simp
    next
      case False
      with k sk l1 l2 show ?thesis by (simp split: if_splits)
    qed
  qed
  have M: "length r < length s" if a: "parse_members (Suc n) s = Ok kvs r" for s kvs r
  proof -
    from a obtain q t where sk0: "skip_ws s = q # t"
      by (cases "skip_ws s") (auto simp: parse_members.simps(2))
    note l0 = skip_ws_ConsD [OF sk0]
    from a sk0 have q: "q = CHR 0x22" by (auto simp: parse_members.simps(2) split: if_splits)
    from a sk0 q obtain k r1 where
      k: "parse_chars t = Ok k r1"
      and k1: "(case skip_ws r1 of [] \<Rightarrow> SyntaxErr
          | c # r2 \<Rightarrow>
              if c \<noteq> CHR '':'' then SyntaxErr
              else bind_parsed (parse_value n r2)
                (\<lambda>v r3. case skip_ws r3 of [] \<Rightarrow> SyntaxErr
                   | d # r4 \<Rightarrow>
                       if d = CHR '','' then
                         bind_parsed (parse_members n r4) (\<lambda>kvs r5. Ok ((k, v) # kvs) r5)
                       else if d = CHR ''}'' then Ok [(k, v)] r4 else SyntaxErr)) = Ok kvs r"
      by (auto simp: parse_members.simps(2) elim: bind_OkE)
    note l1 = parse_chars_consumes [OF k]
    from k1 obtain c r2 where sk1: "skip_ws r1 = c # r2" by (cases "skip_ws r1") auto
    note l2 = skip_ws_ConsD [OF sk1]
    from k1 sk1 obtain v r3 where
      pv: "parse_value n r2 = Ok v r3"
      and k2: "(case skip_ws r3 of [] \<Rightarrow> SyntaxErr
                   | d # r4 \<Rightarrow>
                       if d = CHR '','' then
                         bind_parsed (parse_members n r4) (\<lambda>kvs r5. Ok ((k, v) # kvs) r5)
                       else if d = CHR ''}'' then Ok [(k, v)] r4 else SyntaxErr) = Ok kvs r"
      by (auto split: if_splits elim: bind_OkE)
    note l3 = v [OF pv]
    from k2 obtain d r4 where sk2: "skip_ws r3 = d # r4" by (cases "skip_ws r3") auto
    note l4 = skip_ws_ConsD [OF sk2]
    show ?thesis
    proof (cases "d = CHR '',''")
      case True
      with k2 sk2 have "bind_parsed (parse_members n r4) (\<lambda>kvs r5. Ok ((k, v) # kvs) r5) = Ok kvs r"
        by simp
      then obtain y r5 where "parse_members n r4 = Ok y r5" and "Ok ((k, v) # y) r5 = Ok kvs r"
        by (rule bind_OkE)
      with m [of r4 y r5] l0 l1 l2 l3 l4 show ?thesis by simp
    next
      case False
      with k2 sk2 l0 l1 l2 l3 l4 show ?thesis by (simp split: if_splits)
    qed
  qed
  from V E M show ?case by blast
qed


lemmas value_consumes = parse_consumes [THEN conjunct1, rule_format]

lemma parse_fuel:
  "(\<forall>s. 2 * length s < n \<longrightarrow> parse_value n s \<noteq> OutOfFuel)
   \<and> (\<forall>s. 2 * length s + 1 < n \<longrightarrow> parse_elems n s \<noteq> OutOfFuel)
   \<and> (\<forall>s. 2 * length s + 1 < n \<longrightarrow> parse_members n s \<noteq> OutOfFuel)"
proof (induction n)
  case 0
  show ?case by simp
next
  case (Suc n)
  then have v: "\<And>s. 2 * length s < n \<Longrightarrow> parse_value n s \<noteq> OutOfFuel"
    and e: "\<And>s. 2 * length s + 1 < n \<Longrightarrow> parse_elems n s \<noteq> OutOfFuel"
    and m: "\<And>s. 2 * length s + 1 < n \<Longrightarrow> parse_members n s \<noteq> OutOfFuel"
    by blast+
  have V: "parse_value (Suc n) s \<noteq> OutOfFuel" if a: "2 * length s < Suc n" for s
  proof (cases "skip_ws s")
    case Nil
    then show ?thesis by (simp add: parse_value.simps(2))
  next
    case (Cons c t)
    from skip_ws_ConsD [OF Cons] a have "2 * length t + 1 < n" by simp
    from e [OF this] m [OF this] show ?thesis
      by (simp add: parse_value.simps(2) Cons bind_fuel_iff parse_chars_fuel)
  qed
  have E: "parse_elems (Suc n) s \<noteq> OutOfFuel" if a: "2 * length s + 1 < Suc n" for s
  proof -
    have pv: "parse_value n s \<noteq> OutOfFuel" using a by (intro v) simp
    have k: "(case skip_ws r1 of [] \<Rightarrow> SyntaxErr
          | c # r' \<Rightarrow>
              if c = CHR '','' then bind_parsed (parse_elems n r') (\<lambda>vs r''. Ok (x # vs) r'')
              else if c = CHR '']'' then Ok [x] r' else SyntaxErr) \<noteq> OutOfFuel"
      if x: "parse_value n s = Ok x r1" for x r1
    proof (cases "skip_ws r1")
      case Nil
      then show ?thesis by simp
    next
      case (Cons c r')
      from skip_ws_ConsD [OF Cons] value_consumes [OF x] a have "2 * length r' + 1 < n" by simp
      from e [OF this] show ?thesis by (simp add: Cons bind_fuel_iff)
    qed
    show ?thesis
      unfolding parse_elems.simps(2) using pv k by (simp add: bind_fuel_iff)
  qed
  have M: "parse_members (Suc n) s \<noteq> OutOfFuel" if a: "2 * length s + 1 < Suc n" for s
  proof (cases "skip_ws s")
    case Nil
    then show ?thesis by (simp add: parse_members.simps(2))
  next
    case (Cons q t)
    note l0 = skip_ws_ConsD [OF Cons]
    have inner: "(case skip_ws r3 of [] \<Rightarrow> SyntaxErr
                   | d # r4 \<Rightarrow>
                       if d = CHR '','' then
                         bind_parsed (parse_members n r4) (\<lambda>kvs r5. Ok ((k, x) # kvs) r5)
                       else if d = CHR ''}'' then Ok [(k, x)] r4 else SyntaxErr) \<noteq> OutOfFuel"
      if "length r3 < length s" for r3 k x
    proof (cases "skip_ws r3")
      case Nil
      then show ?thesis by simp
    next
      case (Cons d r4)
      from skip_ws_ConsD [OF Cons] that a have "2 * length r4 + 1 < n" by simp
      from m [OF this] show ?thesis by (simp add: Cons bind_fuel_iff)
    qed
    have middle: "(case skip_ws r1 of [] \<Rightarrow> SyntaxErr
          | c # r2 \<Rightarrow>
              if c \<noteq> CHR '':'' then SyntaxErr
              else bind_parsed (parse_value n r2)
                (\<lambda>v r3. case skip_ws r3 of [] \<Rightarrow> SyntaxErr
                   | d # r4 \<Rightarrow>
                       if d = CHR '','' then
                         bind_parsed (parse_members n r4) (\<lambda>kvs r5. Ok ((k, v) # kvs) r5)
                       else if d = CHR ''}'' then Ok [(k, v)] r4 else SyntaxErr)) \<noteq> OutOfFuel"
      if "length r1 < length s" for r1 k
    proof (cases "skip_ws r1")
      case Nil
      then show ?thesis by simp
    next
      case (Cons c r2)
      note l2 = skip_ws_ConsD [OF Cons]
      from l2 that a have "2 * length r2 < n" by simp
      note pv = v [OF this]
      have "length r3 < length s" if "parse_value n r2 = Ok x r3" for x r3
        using value_consumes [OF that] l2 \<open>length r1 < length s\<close> by simp
      with inner pv show ?thesis
        by (simp add: Cons bind_fuel_iff)
    qed
    have "length r1 < length s" if "parse_chars t = Ok k r1" for k r1
      using parse_chars_consumes [OF that] l0 by simp
    with middle show ?thesis
      by (simp add: parse_members.simps(2) Cons bind_fuel_iff parse_chars_fuel)
  qed
  from V E M show ?case by blast
qed

lemma JSON_parse_fuel: "parse_value (2 * length text + 2) text \<noteq> OutOfFuel"
  using parse_fuel [of "2 * length text + 2"] by simp

section \<open>Properties of the frame handler\<close>

text \<open>
  The typed view loses nothing: an object it accepts is the object of the state it yields,
  so the handler may work on the typed state and reply with its object.
\<close>

lemma json_cell_Some: "json_cell v = Some c \<Longrightarrow> v = cell_json c"
  by (cases v) (auto simp: cell_json_def)

lemma json_cells_Some: "json_cells vs = Some b \<Longrightarrow> vs = map cell_json b"
proof (induction vs arbitrary: b)
  case Nil
  then show ?case by simp
next
  case (Cons v vs)
  then show ?case
    by (auto split: option.splits dest: json_cell_Some)
qed

lemma as_GameState_Some:
  assumes "as_GameState obj = Some st"
  shows "obj = GameState_json st"
proof -
  from assms obtain cells player over level where
    obj: "obj = JObj [(''board'', JArr cells), (''currentPlayer'', JStr player),
                      (''isGameOver'', JBool over), (''difficulty'', JStr level)]"
    and b: "json_cells cells = Some (board st)"
    and r: "currentPlayer st = player" "isGameOver st = over" "difficulty st = level"
    unfolding as_GameState_def
    by (auto split: json.splits list.splits prod.splits if_splits option.splits)
  from json_cells_Some [OF b] obj r show ?thesis
    by (simp add: GameState_json_def)
qed

lemma finish_state:
  "finish (GameState_json st) msg res =
     Returns \<lparr>final_state = GameState_json st, shown_message = msg, result = res,
              encodedState = encodeState (GameState_json st)\<rparr>"
  by (simp add: finish_def GameState_json_def)

lemma game_frame_decode_throws:
  assumes "decodeState token = Throws e"
  shows "game_frame g username (Some (token, mv)) =
     Returns \<lparr>final_state = GameState_json fresh_state,
              shown_message = ''An error occurred while processing your move. Please try again.'',
              result = None,
              encodedState = encodeState (GameState_json fresh_state)\<rparr>"
  using assms by (simp add: game_frame_def finish_state)

lemma game_frame_valid:
  assumes "valid_state st"
  shows "game_frame g username (Some (encodeState (GameState_json st), mv)) =
     (let r = processMove g username st mv
      in Returns \<lparr>final_state = GameState_json (state r), shown_message = message r,
                   result = gameResult r,
                   encodedState = encodeState (GameState_json (state r))\<rparr>)"
  by (simp add: game_frame_def decodeState_encodeState [OF assms] as_GameState_json finish_state
      Let_def)

lemma token_lineage_over:
  assumes "valid_state st" and "isGameOver st"
  shows "token_lineage username (encodeState (GameState_json st)) reqs
         = Some (encodeState (GameState_json st))"
proof (induction reqs)
  case Nil
  show ?case by simp
next
  case (Cons q reqs)
  obtain g mv where q: "q = (g, mv)" by (cases q)
  show ?case
    using Cons.IH
    by (simp add: q game_frame_valid [OF assms(1)] processMove_over [OF assms(2)])
qed

lemma game_frame_taken:
  assumes "valid_state st" and "\<not> isGameOver st" and "board_at (board st) mv = Some c"
    and "c \<noteq> Null"
  shows "game_frame g username (Some (encodeState (GameState_json st), mv)) =
     Returns \<lparr>final_state = GameState_json st,
              shown_message = ''That spot is already taken! Choose another.'',
              result = None, encodedState = encodeState (GameState_json st)\<rparr>"
  by (simp add: game_frame_valid [OF assms(1)] processMove_taken [OF assms(2-4)])

text \<open>
  C3. A move on a cell that already holds a mark, in a game that is not over, is rejected
  with the message that the spot is taken, and the state is returned as it was: every
  cell, the current player and the game-over flag; the reply of the frame carries the same
  state and the same token. More generally no move, accepted or not, changes a cell that
  was not empty: the handler writes the player's mark only on a cell it has read as
  \<^verbatim>\<open>null\<close>, and the computer's mark only where the policy found an empty cell.
\<close>

theorem occupied_cell_rejected:
  "(\<not> isGameOver st \<and> board_at (board st) mv = Some c \<and> c \<noteq> Null \<longrightarrow>
      processMove g username st mv =
        \<lparr>state = st, message = ''That spot is already taken! Choose another.'',
         gameResult = None\<rparr>)
   \<and> length (board (state (processMove g username st mv))) = length (board st)
   \<and> (\<forall>i<length (board st). board st ! i \<noteq> Null \<longrightarrow>
         board (state (processMove g username st mv)) ! i = board st ! i)
   \<and> (valid_state st \<and> \<not> isGameOver st \<and> board_at (board st) mv = Some c \<and> c \<noteq> Null \<longrightarrow>
        game_frame g username (Some (encodeState (GameState_json st), mv)) =
          Returns \<lparr>final_state = GameState_json st,
                   shown_message = ''That spot is already taken! Choose another.'',
                   result = None, encodedState = encodeState (GameState_json st)\<rparr>)"
  using processMove_taken [of st mv c g username] processMove_length [of g username st mv]
    processMove_keeps_marks [of _ st g username mv] game_frame_taken [of st mv c g username]
  by blast

theorem occupied_cell_rejected_witness:
  "processMove (\<lambda>_. 1 / 2) ''Player''
     \<lparr>board = [Mark ''O'', Null, Null, Null, Mark ''X'', Null, Null, Null, Null],
      currentPlayer = ''O'', isGameOver = False, difficulty = ''easy''\<rparr> (Num 4)
   = \<lparr>state =
        \<lparr>board = [Mark ''O'', Null, Null, Null, Mark ''X'', Null, Null, Null, Null],
         currentPlayer = ''O'', isGameOver = False, difficulty = ''easy''\<rparr>,
      message = ''That spot is already taken! Choose another.'', gameResult = None\<rparr>
   \<and> board (state (processMove (\<lambda>_. 1 / 2) ''Player''
        \<lparr>board = [Mark ''O'', Null, Null, Null, Mark ''X'', Null, Null, Null, Null],
         currentPlayer = ''O'', isGameOver = False, difficulty = ''easy''\<rparr> (Num 1))) ! 4
     = Mark ''X''"
proof -
  let ?st = "\<lparr>board = [Mark ''O'', Null, Null, Null, Mark ''X'', Null, Null, Null, Null],
      currentPlayer = ''O'', isGameOver = False, difficulty = ''easy''\<rparr>"
  have h: "\<not> isGameOver ?st \<and> board_at (board ?st) (Num 4) = Some (Mark ''X'')
           \<and> Mark ''X'' \<noteq> Null"
    by (simp add: board_at_def cell_at_def)
  have k: "(4::nat) < length (board ?st)" "board ?st ! 4 \<noteq> Null" by simp_all
  show ?thesis
    using occupied_cell_rejected [of ?st "Num 4" "Mark ''X''" "\<lambda>_. 1 / 2" "''Player''"]
      occupied_cell_rejected [of ?st "Num 1" "Mark ''X''" "\<lambda>_. 1 / 2" "''Player''"] h k
    by simp
qed

text \<open>
  C4. When the game is over the handler applies no move: whatever the move, it answers
  that the game is over and returns the state as it was, with no computer reply. Hence
  along any sequence of interactions from that state the state stays the same, and so does
  the token when the state is a valid one: the game-over flag never goes back to false.
\<close>

theorem game_over_is_final:
  assumes "isGameOver st"
  shows "processMove g username st mv =
           \<lparr>state = st, message = ''Game is over. Start a new game!'', gameResult = None\<rparr>
         \<and> lineage username st reqs = st
         \<and> (valid_state st \<longrightarrow>
              token_lineage username (encodeState (GameState_json st)) reqs
              = Some (encodeState (GameState_json st)))"
  using processMove_over [OF assms] lineage_over [OF assms] token_lineage_over [OF _ assms]
  by blast

theorem game_over_is_final_witness:
  "processMove (\<lambda>_. 1 / 2) ''Player''
     \<lparr>board = [Mark ''O'', Mark ''O'', Mark ''O'', Mark ''X'', Mark ''X'', Null, Null, Null, Null],
      currentPlayer = ''O'', isGameOver = True, difficulty = ''easy''\<rparr> (Num 5)
   = \<lparr>state =
        \<lparr>board = [Mark ''O'', Mark ''O'', Mark ''O'', Mark ''X'', Mark ''X'', Null, Null, Null, Null],
         currentPlayer = ''O'', isGameOver = True, difficulty = ''easy''\<rparr>,
      message = ''Game is over. Start a new game!'', gameResult = None\<rparr>
   \<and> isGameOver (lineage ''Player''
        \<lparr>board = [Mark ''O'', Mark ''O'', Mark ''O'', Mark ''X'', Mark ''X'', Null, Null, Null, Null],
         currentPlayer = ''O'', isGameOver = True, difficulty = ''easy''\<rparr>
        [(\<lambda>_. 1 / 2, Num 5), (\<lambda>_. 9 / 10, Num 6)])"
proof -
  let ?st = "\<lparr>board = [Mark ''O'', Mark ''O'', Mark ''O'', Mark ''X'', Mark ''X'', Null, Null, Null, Null],
      currentPlayer = ''O'', isGameOver = True, difficulty = ''easy''\<rparr>"
  have h: "isGameOver ?st" by simp
  note t = game_over_is_final [OF h, of "\<lambda>_. 1 / 2" "''Player''" "Num 5"
      "[(\<lambda>_. 1 / 2, Num 5), (\<lambda>_. 9 / 10, Num 6)]"]
  from t have a: "processMove (\<lambda>_. 1 / 2) ''Player'' ?st (Num 5) =
      \<lparr>state = ?st, message = ''Game is over. Start a new game!'', gameResult = None\<rparr>"
    by (rule conjunct1)
  from t have b: "lineage ''Player'' ?st [(\<lambda>_. 1 / 2, Num 5), (\<lambda>_. 9 / 10, Num 6)] = ?st"
    by blast
  show ?thesis
    unfolding b using a by simp
qed

lemma decodeState_empty_object:
  "decodeState ''e30='' = Returns (JObj [(''difficulty'', JStr ''medium'')])"
  by code_simp

text \<open>
  C10. The claim fails on the token \<^verbatim>\<open>e30=\<close>, the Base64 text of \<^verbatim>\<open>{}\<close>. It is not
  an encoded state, yet \<open>decodeState\<close> returns an object for it, with the default
  difficulty and no board. Reading the board throws inside the \<^verbatim>\<open>try\<close> block, the
  \<^verbatim>\<open>catch\<close> clause leaves the decoded object in the state variable, and the read of the
  board after the \<^verbatim>\<open>try\<close> block throws again, uncaught.
\<close>

theorem garbage_token_throws:
  "game_frame (\<lambda>_. 1 / 2) ''Player'' (Some (''e30='', Num 0)) = Throws TypeError"
  by (simp add: game_frame_def decodeState_empty_object as_GameState_def finish_def)

end
